theory Spec2Isabelle
  imports Main "HOL-Library.Word" "HOL-Library.AList" "HOL-Library.Multiset"
    "HOL-Library.Log_Nat"
begin

section \<open>JavaScript strings\<close>

text \<open>
  A JavaScript string is a sequence of UTF-16 code units. Donor names are Devanagari
  text, so the code units are kept as 16-bit words; ASCII literals of the source are
  written through \<open>js\<close>.
\<close>

type_synonym code_unit = "16 word"
type_synonym jsstring = "code_unit list"

definition js :: "string \<Rightarrow> jsstring" where
  "js s = map of_char s"

text \<open>
  \<open>String.prototype.trim\<close> removes the WhiteSpace and LineTerminator code units from
  both ends.
\<close>

definition isWhiteSpace :: "code_unit \<Rightarrow> bool" where
  "isWhiteSpace c =
     ((0x09 \<le> c \<and> c \<le> 0x0D) \<or> c = 0x20 \<or> c = 0xA0 \<or> c = 0x1680
      \<or> (0x2000 \<le> c \<and> c \<le> 0x200A) \<or> c = 0x2028 \<or> c = 0x2029 \<or> c = 0x202F
      \<or> c = 0x205F \<or> c = 0x3000 \<or> c = 0xFEFF)"

definition trim :: "jsstring \<Rightarrow> jsstring" where
  "trim s = rev (dropWhile isWhiteSpace (rev (dropWhile isWhiteSpace s)))"

text \<open>
  \<open>String.prototype.toLowerCase\<close> is not written out: its case table (with the
  mappings to two code units and the rule for the final sigma) belongs to the
  JavaScript engine, not to the repository. Every function below that calls it takes
  it as its first argument, named \<open>toLowerCase\<close>, and the general theorems hold for
  every function in that place.

  For the sample texts, \<open>toLowerCase_latin\<close> is the builtin on texts of the Basic
  Latin, Latin-1 Supplement and Devanagari blocks: the capital letters of the first
  two blocks are lowered, Devanagari has no case. It is used on no other text.
\<close>

definition lowerUnit :: "code_unit \<Rightarrow> code_unit" where
  "lowerUnit c =
     (if (0x41 \<le> c \<and> c \<le> 0x5A) \<or> (0xC0 \<le> c \<and> c \<le> 0xDE \<and> c \<noteq> 0xD7)
      then c + 0x20 else c)"

definition toLowerCase_latin :: "jsstring \<Rightarrow> jsstring" where
  "toLowerCase_latin s = map lowerUnit s"

text \<open>
  The letters A to Z lowered and nothing else: the comparison without regard to case
  of a regular expression with the flag \<open>i\<close> against an ASCII literal, and the
  lowercase hexadecimal text of an ObjectId.
\<close>

definition lower_ascii :: "jsstring \<Rightarrow> jsstring" where
  "lower_ascii s = map (\<lambda>c. if 0x41 \<le> c \<and> c \<le> 0x5A then c + 0x20 else c) s"

text \<open>\<open>String.prototype.includes\<close>: the term occurs as a contiguous substring.\<close>

fun includes_str :: "jsstring \<Rightarrow> jsstring \<Rightarrow> bool" where
  "includes_str [] t = (t = [])"
| "includes_str (c # cs) t = (take (length t) (c # cs) = t \<or> includes_str cs t)"

section \<open>JavaScript numbers\<close>

text \<open>
  A JavaScript number is an IEEE 754 double: a rational of the form \<open>m * 2^k\<close> with
  \<open>\<bar>m\<bar> < 2^53\<close> and \<open>-1074 \<le> k \<le> 971\<close>, one of the two infinities, or NaN. The two zeros
  are not told apart (both are falsy and equal under \<open>===\<close>).
\<close>

datatype number = Finite rat | PosInfinity | NegInfinity | NaN

definition two_to :: "int \<Rightarrow> rat" where
  "two_to k = (if 0 \<le> k then 2 ^ nat k else 1 / 2 ^ nat (- k))"

text \<open>Rounding to the nearest integer, a tie going to the even one.\<close>

definition round_half_even :: "rat \<Rightarrow> int" where
  "round_half_even x =
     (let f = \<lfloor>x\<rfloor>; r = x - of_int f
      in if r < 1 / 2 then f else if 1 / 2 < r then f + 1 else if even f then f else f + 1)"

text \<open>The exponent \<open>e\<close> with \<open>2^e \<le> m < 2^(e + 1)\<close>, for a positive \<open>m\<close>.\<close>

definition ilog2 :: "rat \<Rightarrow> int" where
  "ilog2 m =
     (let (a, b) = quotient_of m; d = bitlen a - bitlen b
      in if two_to d \<le> m then d else d - 1)"

text \<open>
  The double nearest to a rational: 53 significant bits, the unit in the last place
  not below \<open>2^-1074\<close>, a tie going to the even significand, and an infinity from
  \<open>2^1024\<close> on.
\<close>

definition fl :: "rat \<Rightarrow> number" where
  "fl q =
     (if q = 0 then Finite 0
      else
        (let m = \<bar>q\<bar>;
             u = two_to (max (ilog2 m) (- 1022) - 52);
             r = of_int (round_half_even (m / u)) * u
         in if 2 ^ 1024 \<le> r then (if 0 < q then PosInfinity else NegInfinity)
            else Finite (if 0 < q then r else - r)))"

text \<open>The operator \<open>+\<close> on two numbers.\<close>

fun js_plus :: "number \<Rightarrow> number \<Rightarrow> number" where
  "js_plus (Finite a) (Finite b) = fl (a + b)"
| "js_plus NaN y = NaN"
| "js_plus x NaN = NaN"
| "js_plus PosInfinity NegInfinity = NaN"
| "js_plus NegInfinity PosInfinity = NaN"
| "js_plus PosInfinity y = PosInfinity"
| "js_plus x PosInfinity = PosInfinity"
| "js_plus NegInfinity y = NegInfinity"
| "js_plus x NegInfinity = NegInfinity"

text \<open>The falsy numbers are 0 and NaN; \<open>x > 0\<close>.\<close>

definition falsy_number :: "number \<Rightarrow> bool" where
  "falsy_number x = (x = Finite 0 \<or> x = NaN)"

fun greater_0 :: "number \<Rightarrow> bool" where
  "greater_0 (Finite q) = (0 < q)"
| "greater_0 PosInfinity = True"
| "greater_0 x = False"

text \<open>The numbers that are integers, and their value.\<close>

fun is_integer :: "number \<Rightarrow> bool" where
  "is_integer (Finite q) = (of_int \<lfloor>q\<rfloor> = q)"
| "is_integer x = False"

fun int_of :: "number \<Rightarrow> int" where
  "int_of (Finite q) = \<lfloor>q\<rfloor>"
| "int_of x = 0"

section \<open>Permission evaluator (client, \<open>canUser...\<close>)\<close>

text \<open>
  The user object the login route returns and the client keeps in \<open>currentUser\<close>
  (\<open>null\<close> before login and after logout). An admin object carries no
  \<open>permissions\<close>; \<open>assignedCategories\<close> is read through \<open>?.\<close>, so it may be absent.
\<close>

record permissions =
  canAddDonation :: bool
  canEditDonation :: bool
  canDeleteDonation :: bool
  canManageCategory :: bool
  assignedCategories :: "jsstring list option"

record user =
  user_type :: jsstring
  username :: jsstring
  user_permissions :: "permissions option"

datatype error = TypeError | CastError | ValidationError

definition canUserAdd :: "user option \<Rightarrow> bool" where
  "canUserAdd currentUser =
     (case currentUser of
        None \<Rightarrow> False
      | Some u \<Rightarrow>
          if user_type u = js ''admin'' then True
          else (case user_permissions u of None \<Rightarrow> False | Some p \<Rightarrow> canAddDonation p))"

definition canUserEdit :: "user option \<Rightarrow> bool" where
  "canUserEdit currentUser =
     (case currentUser of
        None \<Rightarrow> False
      | Some u \<Rightarrow>
          if user_type u = js ''admin'' then True
          else (case user_permissions u of None \<Rightarrow> False | Some p \<Rightarrow> canEditDonation p))"

definition canUserDelete :: "user option \<Rightarrow> bool" where
  "canUserDelete currentUser =
     (case currentUser of
        None \<Rightarrow> False
      | Some u \<Rightarrow>
          if user_type u = js ''admin'' then True
          else (case user_permissions u of None \<Rightarrow> False | Some p \<Rightarrow> canDeleteDonation p))"

definition canUserManageCategory :: "user option \<Rightarrow> bool" where
  "canUserManageCategory currentUser =
     (case currentUser of
        None \<Rightarrow> False
      | Some u \<Rightarrow>
          if user_type u = js ''admin'' then True
          else (case user_permissions u of None \<Rightarrow> False | Some p \<Rightarrow> canManageCategory p))"

text \<open>
  \<open>canUserAccessCategory\<close> reads \<open>perms.assignedCategories\<close> without \<open>?.\<close> on
  \<open>perms\<close>: a non-admin user object without \<open>permissions\<close> raises a TypeError.
\<close>

definition canUserAccessCategory :: "user option \<Rightarrow> jsstring \<Rightarrow> error + bool" where
  "canUserAccessCategory currentUser categoryId =
     (case currentUser of
        None \<Rightarrow> Inr False
      | Some u \<Rightarrow>
          if user_type u = js ''admin'' then Inr True
          else (case user_permissions u of
                  None \<Rightarrow> Inl TypeError
                | Some perms \<Rightarrow>
                    (case assignedCategories perms of
                       None \<Rightarrow> Inr True
                     | Some cs \<Rightarrow> Inr (length cs = 0 \<or> categoryId \<in> set cs))))"

text \<open>The two kinds of user object the login route builds.\<close>

definition admin_user :: "jsstring \<Rightarrow> user" where
  "admin_user name = \<lparr>user_type = js ''admin'', username = name, user_permissions = None\<rparr>"

definition subadmin_user :: "jsstring \<Rightarrow> permissions \<Rightarrow> user" where
  "subadmin_user name p =
     \<lparr>user_type = js ''subadmin'', username = name, user_permissions = Some p\<rparr>"

section \<open>Records as the client holds them\<close>

text \<open>
  The client works on the JSON the server sends. A category identity is the text of a
  MongoDB ObjectId: 24 lowercase hexadecimal digits. An amount is a number; \<open>None\<close>
  is an amount that is absent or \<open>null\<close>.
\<close>

definition is_hex :: "code_unit \<Rightarrow> bool" where
  "is_hex c = ((0x30 \<le> c \<and> c \<le> 0x39) \<or> (0x61 \<le> c \<and> c \<le> 0x66))"

definition is_object_id :: "jsstring \<Rightarrow> bool" where
  "is_object_id s = (length s = 24 \<and> list_all is_hex s)"

datatype status = Approved | Pending

record category =
  cat_id :: jsstring
  cat_name :: jsstring
  cat_order :: int

text \<open>
  \<open>categoryId\<close> of a donation is the populated category object, the bare identity,
  or \<open>null\<close> when the reference does not resolve.
\<close>

datatype category_ref = Populated category | IdString jsstring | NoCategory

text \<open>
  A date is kept as the text received together with the time value \<open>new Date(text)\<close>
  has, in milliseconds; \<open>None\<close> is the invalid date, whose time value is NaN.
\<close>

datatype jsdate = JsDate (date_text: jsstring) (date_time: "int option")

record donation =
  d_id :: jsstring
  donorName :: jsstring
  amount :: "number option"
  date :: jsdate
  categoryId :: category_ref
  d_notes :: jsstring
  status :: status

record history_entry =
  h_amount :: number
  h_date :: jsdate
  h_notes :: jsstring

text \<open>The object \<open>groupDonationsByName\<close> builds for each donor.\<close>

record donor =
  g_donorName :: jsstring
  g_amount :: number
  g_history :: "history_entry list"
  g_categoryId :: category_ref
  g_date :: jsdate
  g_notes :: jsstring
  g_id :: jsstring

text \<open>
  Records as the server delivers them: the category reference is an ObjectId, a
  populated category with one, or unresolved.
\<close>

fun wf_ref :: "category_ref \<Rightarrow> bool" where
  "wf_ref (Populated c) = is_object_id (cat_id c)"
| "wf_ref (IdString s) = is_object_id s"
| "wf_ref NoCategory = True"

definition wf_donations :: "donation list \<Rightarrow> bool" where
  "wf_donations ds = list_all (\<lambda>d. wf_ref (categoryId d)) ds"

section \<open>Donor aggregator (client, \<open>groupDonationsByName\<close>)\<close>

text \<open>
  \<open>d.categoryId?._id || d.categoryId || 'unknown'\<close>, as the text that \<open>+\<close> appends
  to the key. The empty string is falsy; an object without identity is appended as
  \<open>[object Object]\<close>.
\<close>

fun category_key :: "category_ref \<Rightarrow> jsstring" where
  "category_key (Populated c) = (if cat_id c \<noteq> [] then cat_id c else js ''[object Object]'')"
| "category_key (IdString s) = (if s \<noteq> [] then s else js ''unknown'')"
| "category_key NoCategory = js ''unknown''"

text \<open>
  \<open>d.categoryId?._id || d.categoryId\<close>, as the identity that \<open>===\<close> compares with a
  category identity: \<open>None\<close> when the value is \<open>null\<close> or an object, which equal no
  string.
\<close>

fun category_of :: "category_ref \<Rightarrow> jsstring option" where
  "category_of (Populated c) = (if cat_id c \<noteq> [] then Some (cat_id c) else None)"
| "category_of (IdString s) = Some s"
| "category_of NoCategory = None"

definition nameKey :: "(jsstring \<Rightarrow> jsstring) \<Rightarrow> donation \<Rightarrow> jsstring" where
  "nameKey toLowerCase d =
     toLowerCase (trim (donorName d)) @ js ''_'' @ category_key (categoryId d)"

text \<open>\<open>new Date(a) > new Date(b)\<close>: false as soon as one side is NaN.\<close>

definition later :: "jsdate \<Rightarrow> jsdate \<Rightarrow> bool" where
  "later a b =
     (case date_time a of
        None \<Rightarrow> False
      | Some x \<Rightarrow> (case date_time b of None \<Rightarrow> False | Some y \<Rightarrow> y < x))"

definition new_group :: "donation \<Rightarrow> donor" where
  "new_group d =
     \<lparr>g_donorName = trim (donorName d), g_amount = Finite 0, g_history = [],
      g_categoryId = categoryId d, g_date = date d, g_notes = d_notes d, g_id = d_id d\<rparr>"

text \<open>\<open>d.amount || 0\<close>: a missing amount counts as 0, as do the falsy numbers.\<close>

definition amount_or_0 :: "donation \<Rightarrow> number" where
  "amount_or_0 d =
     (case amount d of None \<Rightarrow> Finite 0 | Some a \<Rightarrow> if falsy_number a then Finite 0 else a)"

definition history_of :: "donation \<Rightarrow> history_entry" where
  "history_of d = \<lparr>h_amount = amount_or_0 d, h_date = date d, h_notes = d_notes d\<rparr>"

definition add_donation :: "donor \<Rightarrow> donation \<Rightarrow> donor" where
  "add_donation g d =
     g\<lparr>g_amount := js_plus (g_amount g) (amount_or_0 d),
       g_date := (if later (date d) (g_date g) then date d else g_date g),
       g_history := g_history g @ [history_of d]\<rparr>"

text \<open>
  The accumulator \<open>grouped\<close> is an object used as a dictionary: its keys stay in
  insertion order, which is the order \<open>Object.values\<close> lists them in (no key is an
  array index, since every key contains \<open>_\<close>). The key of a well-formed record
  ends in an ObjectId or in \<open>unknown\<close>, so it never names a property that the
  object inherits. One round of the \<open>forEach\<close>:
\<close>

definition group_step :: "(jsstring \<Rightarrow> jsstring) \<Rightarrow> (jsstring \<times> donor) list \<Rightarrow> donation
                           \<Rightarrow> (jsstring \<times> donor) list" where
  "group_step toLowerCase grouped d =
     (let k = nameKey toLowerCase d;
          g = (case map_of grouped k of None \<Rightarrow> new_group d | Some g \<Rightarrow> g)
      in AList.update k (add_donation g d) grouped)"

definition groupDonationsByName :: "(jsstring \<Rightarrow> jsstring) \<Rightarrow> donation list \<Rightarrow> donor list" where
  "groupDonationsByName toLowerCase donations =
     map snd (foldl (group_step toLowerCase) [] donations)"

subsection \<open>The grouping in the words of the specification\<close>

text \<open>The distinct elements of a list, in the order of their first occurrence.\<close>

primrec first_occurrences :: "'a list \<Rightarrow> 'a list" where
  "first_occurrences [] = []"
| "first_occurrences (x # xs) = x # filter (\<lambda>y. y \<noteq> x) (first_occurrences xs)"

definition constituents :: "(jsstring \<Rightarrow> jsstring) \<Rightarrow> donation list \<Rightarrow> jsstring
                             \<Rightarrow> donation list" where
  "constituents toLowerCase ds k = filter (\<lambda>d. nameKey toLowerCase d = k) ds"

text \<open>The representative date: the running maximum under the strict comparison.\<close>

definition latest_date :: "jsdate \<Rightarrow> donation list \<Rightarrow> jsdate" where
  "latest_date d0 cs = foldl (\<lambda>cur d. if later (date d) cur then date d else cur) d0 cs"

definition aggregate_of :: "donation list \<Rightarrow> donor" where
  "aggregate_of cs =
     \<lparr>g_donorName = trim (donorName (hd cs)),
      g_amount = foldl js_plus (Finite 0) (map amount_or_0 cs),
      g_history = map history_of cs,
      g_categoryId = categoryId (hd cs),
      g_date = latest_date (date (hd cs)) cs,
      g_notes = d_notes (hd cs),
      g_id = d_id (hd cs)\<rparr>"

text \<open>The key of a donor object, recomputed from its own fields.\<close>

definition donor_key :: "(jsstring \<Rightarrow> jsstring) \<Rightarrow> donor \<Rightarrow> jsstring" where
  "donor_key toLowerCase g =
     toLowerCase (g_donorName g) @ js ''_'' @ category_key (g_categoryId g)"

text \<open>The time value of a valid date.\<close>

definition time_value :: "jsdate \<Rightarrow> int" where
  "time_value x = (case date_time x of None \<Rightarrow> 0 | Some t \<Rightarrow> t)"

definition valid_dates :: "donation list \<Rightarrow> bool" where
  "valid_dates ds = list_all (\<lambda>d. date_time (date d) \<noteq> None) ds"

text \<open>
  Amounts in whole rupees that are small enough for every running total to be exact:
  each is an integer, and their absolute values add up to less than \<open>2^53\<close>.
\<close>

definition safe_amounts :: "donation list \<Rightarrow> bool" where
  "safe_amounts ds =
     (list_all (\<lambda>d. is_integer (amount_or_0 d)) ds
      \<and> sum_list (map (\<lambda>d. \<bar>int_of (amount_or_0 d)\<bar>) ds) < 2 ^ 53)"

subsection \<open>Sample records\<close>

definition mandir_hall :: jsstring where
  "mandir_hall = js ''65a4f1c2e4b0a1b2c3d4e5f6''"

definition ganesh_chowk :: jsstring where
  "ganesh_chowk = js ''65a4f1c2e4b0a1b2c3d4e5f7''"

definition ram_500 :: donation where
  "ram_500 =
     \<lparr>d_id = js ''65b0000000000000000000a1'', donorName = js ''Ram'', amount = Some (Finite 500),
      date = JsDate (js ''2024-01-18T00:00:00.000Z'') (Some 1705536000000),
      categoryId = IdString mandir_hall, d_notes = js ''hall'', status = Approved\<rparr>"

definition ram_300 :: donation where
  "ram_300 =
     \<lparr>d_id = js ''65b0000000000000000000a2'', donorName = js ''ram'', amount = Some (Finite 300),
      date = JsDate (js ''2024-01-18'') (Some 1705536000000),
      categoryId = Populated \<lparr>cat_id = mandir_hall, cat_name = js ''Hall'', cat_order = 1\<rparr>,
      d_notes = js ''roof'', status = Approved\<rparr>"

definition sita_pledge :: donation where
  "sita_pledge =
     \<lparr>d_id = js ''65b0000000000000000000a3'', donorName = js ''Sita'', amount = None,
      date = JsDate (js ''2024-01-15T00:00:00.000Z'') (Some 1705276800000),
      categoryId = IdString ganesh_chowk, d_notes = [], status = Approved\<rparr>"

definition ram_spaced :: donation where
  "ram_spaced =
     \<lparr>d_id = js ''65b0000000000000000000a6'',
      donorName = [0x20, 0x09] @ js ''RAM'' @ [0xA0, 0x0A], amount = Some (Finite 50),
      date = JsDate (js ''2024-01-10T00:00:00.000Z'') (Some 1704844800000),
      categoryId = IdString mandir_hall, d_notes = [], status = Approved\<rparr>"

text \<open>
  Three approved records of one category: one rupee from Sita, one rupee from Ram and
  \<open>2^53\<close> rupees from Ram.
\<close>

definition sita_1 :: donation where
  "sita_1 =
     \<lparr>d_id = js ''65b0000000000000000000a7'', donorName = js ''Sita'', amount = Some (Finite 1),
      date = JsDate (js ''2024-01-18T00:00:00.000Z'') (Some 1705536000000),
      categoryId = IdString mandir_hall, d_notes = [], status = Approved\<rparr>"

definition ram_1 :: donation where
  "ram_1 =
     \<lparr>d_id = js ''65b0000000000000000000a8'', donorName = js ''Ram'', amount = Some (Finite 1),
      date = JsDate (js ''2024-01-18T00:00:00.000Z'') (Some 1705536000000),
      categoryId = IdString mandir_hall, d_notes = [], status = Approved\<rparr>"

definition ram_big :: donation where
  "ram_big =
     \<lparr>d_id = js ''65b0000000000000000000a9'', donorName = js ''Ram'',
      amount = Some (Finite 9007199254740992),
      date = JsDate (js ''2024-01-18T00:00:00.000Z'') (Some 1705536000000),
      categoryId = IdString mandir_hall, d_notes = [], status = Approved\<rparr>"

definition ram_pending :: donation where
  "ram_pending =
     \<lparr>d_id = js ''65b0000000000000000000a4'', donorName = js ''Ram'', amount = Some (Finite 100),
      date = JsDate (js ''2024-02-01T00:00:00.000Z'') (Some 1706745600000),
      categoryId = IdString mandir_hall, d_notes = [], status = Pending\<rparr>"

section \<open>Search (client, \<open>transliterateHindiToEnglish\<close> and \<open>renderPublicView\<close>)\<close>

text \<open>
  \<open>result.replace(new RegExp(hindi, 'g'), eng)\<close>: the occurrences of the key are
  found from left to right without overlap and each is replaced by the literal text.
  No key of the table has a character that is special in a regular expression. The
  empty pattern matches before every code unit and at the end.
\<close>

fun replace_all :: "jsstring \<Rightarrow> jsstring \<Rightarrow> jsstring \<Rightarrow> jsstring" where
  "replace_all [] eng s = eng @ concat (map (\<lambda>c. c # eng) s)"
| "replace_all (p # ps) eng [] = []"
| "replace_all (p # ps) eng (c # cs) =
     (if take (Suc (length ps)) (c # cs) = p # ps
      then eng @ replace_all (p # ps) eng (drop (length ps) cs)
      else c # replace_all (p # ps) eng cs)"

text \<open>
  The table \<open>map\<close> of the source, in the order of its entries, which is the order
  \<open>Object.entries\<close> lists them in; the keys are given by their code units
  (U+0905 is the letter A of Devanagari).
\<close>

definition translit_map :: "(jsstring \<times> jsstring) list" where
  "translit_map =
    [([0x0905], js ''a''), ([0x0906], js ''aa''), ([0x0907], js ''i''),
     ([0x0908], js ''ee''), ([0x0909], js ''u''), ([0x090A], js ''oo''),
     ([0x090F], js ''e''), ([0x0910], js ''ai''), ([0x0913], js ''o''),
     ([0x0914], js ''au''), ([0x0905, 0x0902], js ''an''), ([0x0905, 0x0903], js ''ah''),
     ([0x0915], js ''k''), ([0x0916], js ''kh''), ([0x0917], js ''g''),
     ([0x0918], js ''gh''), ([0x0919], js ''ng''), ([0x091A], js ''ch''),
     ([0x091B], js ''chh''), ([0x091C], js ''j''), ([0x091D], js ''jh''),
     ([0x091E], js ''ny''), ([0x091F], js ''t''), ([0x0920], js ''th''),
     ([0x0921], js ''d''), ([0x0922], js ''dh''), ([0x0923], js ''n''),
     ([0x0924], js ''t''), ([0x0925], js ''th''), ([0x0926], js ''d''),
     ([0x0927], js ''dh''), ([0x0928], js ''n''), ([0x092A], js ''p''),
     ([0x092B], js ''ph''), ([0x092C], js ''b''), ([0x092D], js ''bh''),
     ([0x092E], js ''m''), ([0x092F], js ''y''), ([0x0930], js ''r''),
     ([0x0932], js ''l''), ([0x0935], js ''v''), ([0x0936], js ''sh''),
     ([0x0937], js ''sh''), ([0x0938], js ''s''), ([0x0939], js ''h''),
     ([0x093E], js ''a''), ([0x093F], js ''i''), ([0x0940], js ''ee''),
     ([0x0941], js ''u''), ([0x0942], js ''oo''), ([0x0947], js ''e''),
     ([0x0948], js ''ai''), ([0x094B], js ''o''), ([0x094C], js ''au''),
     ([0x0902], js ''n''), ([0x0903], js ''h''), ([0x094D], js ''''),
     ([0x0943], js ''ri''), ([0x0936, 0x094D, 0x0930, 0x0940], js ''shri''),
     ([0x0930, 0x093E, 0x092E], js ''ram''),
     ([0x0915, 0x0943, 0x0937, 0x094D, 0x0923], js ''krishna''),
     ([0x0939, 0x0928, 0x0941, 0x092E, 0x093E, 0x0928], js ''hanuman''),
     ([0x092A, 0x094D, 0x0930, 0x0938, 0x093E, 0x0926], js ''prasad''),
     ([0x0915, 0x0941, 0x092E, 0x093E, 0x0930], js ''kumar''),
     ([0x0938, 0x093F, 0x0902, 0x0939], js ''singh''),
     ([0x0936, 0x0930, 0x094D, 0x092E, 0x093E], js ''sharma''),
     ([0x0917, 0x0941, 0x092A, 0x094D, 0x0924, 0x093E], js ''gupta''),
     ([0x092F, 0x093E, 0x0926, 0x0935], js ''yadav''),
     ([0x092A, 0x093E, 0x0923, 0x094D, 0x0921, 0x0947, 0x092F], js ''pandey''),
     ([0x092E, 0x093F, 0x0936, 0x094D, 0x0930, 0x093E], js ''mishra'')]"

definition transliterateHindiToEnglish :: "(jsstring \<Rightarrow> jsstring) \<Rightarrow> jsstring \<Rightarrow> jsstring" where
  "transliterateHindiToEnglish toLowerCase text =
     toLowerCase (foldl (\<lambda>result (hindi, eng). replace_all hindi eng result) text translit_map)"

text \<open>The predicate of the search filter; \<open>term\<close> is the lowercased search term.\<close>

definition search_match :: "(jsstring \<Rightarrow> jsstring) \<Rightarrow> jsstring \<Rightarrow> donor \<Rightarrow> bool" where
  "search_match toLowerCase term d =
     (let donorLower = toLowerCase (g_donorName d)
      in if includes_str donorLower term then True
         else includes_str
                (donorLower @ js '' '' @ transliterateHindiToEnglish toLowerCase (g_donorName d))
                term)"

text \<open>
  The list \<open>groupedDonors\<close> that \<open>renderPublicView\<close> draws: the approved records,
  grouped, then narrowed by the search term, the category and the payment status. An
  empty argument is falsy and switches its filter off.
\<close>

definition groupedDonors :: "(jsstring \<Rightarrow> jsstring) \<Rightarrow> donation list \<Rightarrow> jsstring \<Rightarrow> jsstring
                              \<Rightarrow> jsstring \<Rightarrow> donor list" where
  "groupedDonors toLowerCase donationsCache searchTerm categoryFilter statusFilter =
     (let rawDonations = filter (\<lambda>d. status d = Approved) donationsCache;
          grouped = groupDonationsByName toLowerCase rawDonations;
          searched = (if searchTerm \<noteq> []
                      then filter (search_match toLowerCase (toLowerCase searchTerm)) grouped
                      else grouped);
          in_category = (if categoryFilter \<noteq> []
                         then filter (\<lambda>d. category_of (g_categoryId d) = Some categoryFilter)
                                searched
                         else searched)
      in if statusFilter = js ''paid'' then filter (\<lambda>d. greater_0 (g_amount d)) in_category
         else if statusFilter = js ''pledged''
         then filter (\<lambda>d. g_amount d = Finite 0) in_category
         else in_category)"

text \<open>The donor name of the example: SHA, VIRAMA, RA, II, space, RA, AA, MA.\<close>

definition shri_ram :: jsstring where
  "shri_ram = [0x0936, 0x094D, 0x0930, 0x0940, 0x0020, 0x0930, 0x093E, 0x092E]"

definition shri_ram_donation :: donation where
  "shri_ram_donation =
     \<lparr>d_id = js ''65b0000000000000000000a5'', donorName = shri_ram, amount = Some (Finite 51000),
      date = JsDate (js ''2024-01-15T00:00:00.000Z'') (Some 1705276800000),
      categoryId = IdString mandir_hall, d_notes = [], status = Approved\<rparr>"

section \<open>Server (\<open>server.js\<close>)\<close>

text \<open>
  The stored documents. An amount is a number and a date its time value; either may
  be \<open>null\<close>, which is \<open>None\<close>. The details text, the origin address and the timestamp
  of a log entry are left out.
\<close>

record donation_doc =
  doc_id :: jsstring
  doc_donorName :: jsstring
  doc_amount :: "number option"
  doc_date :: "int option"
  doc_categoryId :: jsstring
  doc_notes :: jsstring
  doc_status :: status

record log_entry =
  log_action :: jsstring
  log_entity :: jsstring
  log_entityId :: "jsstring option"
  log_user :: jsstring
  log_userType :: jsstring

record server =
  donations :: "donation_doc list"
  categories :: "category list"
  logs :: "log_entry list"

text \<open>
  A request: method, path (its segments), the two headers the server reads, and the
  JSON body, of which the fields some handler or schema reads are kept; an absent field
  is \<open>None\<close>. For the amount and the date, which the handler for new donations tests
  for truthiness, \<open>null\<close> is told apart from an absent field. A date comes as a text
  (with the time value \<open>new Date\<close> gives it) or as a whole number of milliseconds.
\<close>

datatype http_method = GET | POST | PUT | DELETE

datatype 'a field = Absent | Null | Val 'a

datatype date_input = Millis int | DateText jsdate

record body =
  b_donorName :: "jsstring option"
  b_amount :: "number field"
  b_date :: "date_input field"
  b_categoryId :: "jsstring option"
  b_notes :: "jsstring option"
  b_status :: "status option"
  b_name :: "jsstring option"
  b_order :: "int option"
  b_orders :: "(jsstring \<times> int) list option"

record request =
  req_method :: http_method
  req_path :: "jsstring list"
  x_user :: "jsstring option"
  x_user_type :: "jsstring option"
  req_body :: body

text \<open>What the handler does not choose: the identity of a new document and the clock.\<close>

record env =
  fresh_id :: jsstring
  now :: int

text \<open>
  A response is a success (the document sent back is left out), a rejection with the
  handler's own message, or the message of a caught exception.
\<close>

datatype response = Success nat | Rejected nat jsstring | Failed nat error

definition empty_body :: body where
  "empty_body =
     \<lparr>b_donorName = None, b_amount = Absent, b_date = Absent, b_categoryId = None,
      b_notes = None, b_status = None, b_name = None, b_order = None, b_orders = None\<rparr>"

subsection \<open>Mongoose\<close>

text \<open>
  Mongoose casts the text of an identity to an ObjectId before it queries: 24
  hexadecimal digits of either case; any other text raises a CastError. (Older
  versions also take a text of 12 characters as the bytes of an ObjectId; that case
  is left out.)
\<close>

definition is_hex_digit :: "code_unit \<Rightarrow> bool" where
  "is_hex_digit c = (is_hex c \<or> (0x41 \<le> c \<and> c \<le> 0x46))"

definition castObjectId :: "jsstring \<Rightarrow> jsstring option" where
  "castObjectId s =
     (if length s = 24 \<and> list_all is_hex_digit s then Some (lower_ascii s) else None)"

definition findById :: "jsstring \<Rightarrow> donation_doc list \<Rightarrow> error + donation_doc option" where
  "findById ident docs =
     (case castObjectId ident of
        None \<Rightarrow> Inl CastError
      | Some i \<Rightarrow> Inr (find (\<lambda>d. doc_id d = i) docs))"

definition findCategoryById :: "jsstring \<Rightarrow> category list \<Rightarrow> error + category option" where
  "findCategoryById ident cats =
     (case castObjectId ident of
        None \<Rightarrow> Inl CastError
      | Some i \<Rightarrow> Inr (find (\<lambda>c. cat_id c = i) cats))"

text \<open>
  The casts of the schema types \<open>Number\<close> and \<open>Date\<close>, applied to a field of a body;
  \<open>current\<close> is what an absent field leaves. \<open>null\<close> is kept. NaN is not a \<open>Number\<close>. An
  empty text is the date \<open>null\<close>; a text that \<open>new Date\<close> cannot read and a number
  beyond the range of time values (8.64e15 milliseconds either way) are no \<open>Date\<close>.
  (Mongoose reads a text that is a numeral as a number of milliseconds; the texts
  here are dates as the date input of the form writes them, or empty.)
\<close>

definition set_amount :: "number field \<Rightarrow> number option \<Rightarrow> error + number option" where
  "set_amount a current =
     (case a of
        Absent \<Rightarrow> Inr current
      | Null \<Rightarrow> Inr None
      | Val x \<Rightarrow> if x = NaN then Inl CastError else Inr (Some x))"

definition set_date :: "date_input field \<Rightarrow> int option \<Rightarrow> error + int option" where
  "set_date t current =
     (case t of
        Absent \<Rightarrow> Inr current
      | Null \<Rightarrow> Inr None
      | Val (Millis n) \<Rightarrow>
          if \<bar>n\<bar> \<le> 8640000000000000 then Inr (Some n) else Inl CastError
      | Val (DateText x) \<Rightarrow>
          if date_text x = [] then Inr None
          else (case date_time x of None \<Rightarrow> Inl CastError | Some n \<Rightarrow> Inr (Some n)))"

text \<open>
  The update a body asks for: the fields present replace the stored ones; a value
  that does not cast raises a CastError.
\<close>

definition update_donation :: "body \<Rightarrow> donation_doc \<Rightarrow> error + donation_doc" where
  "update_donation b d =
     (case (case b_categoryId b of
              None \<Rightarrow> Some (doc_categoryId d)
            | Some c \<Rightarrow> castObjectId c) of
        None \<Rightarrow> Inl CastError
      | Some c \<Rightarrow>
          (case set_amount (b_amount b) (doc_amount d) of
             Inl err \<Rightarrow> Inl err
           | Inr a \<Rightarrow>
               (case set_date (b_date b) (doc_date d) of
                  Inl err \<Rightarrow> Inl err
                | Inr t \<Rightarrow>
                    Inr \<lparr>doc_id = doc_id d,
                         doc_donorName =
                           (case b_donorName b of None \<Rightarrow> doc_donorName d | Some n \<Rightarrow> n),
                         doc_amount = a,
                         doc_date = t,
                         doc_categoryId = c,
                         doc_notes = (case b_notes b of None \<Rightarrow> doc_notes d | Some n \<Rightarrow> n),
                         doc_status =
                           (case b_status b of None \<Rightarrow> doc_status d | Some st \<Rightarrow> st)\<rparr>)))"

definition update_category :: "body \<Rightarrow> category \<Rightarrow> category" where
  "update_category b c =
     \<lparr>cat_id = cat_id c,
      cat_name = (case b_name b of None \<Rightarrow> cat_name c | Some n \<Rightarrow> n),
      cat_order = (case b_order b of None \<Rightarrow> cat_order c | Some k \<Rightarrow> k)\<rparr>"

text \<open>
  \<open>new Donation(donationData)\<close> followed by \<open>save\<close>: the schema's defaults fill the
  absent fields (amount 0, the date of the clock); a missing or empty donor name, a
  missing or ill-formed category reference and an amount or a date that does not cast
  fail the validation.
\<close>

definition new_donation :: "env \<Rightarrow> body \<Rightarrow> error + donation_doc" where
  "new_donation e b =
     (case b_donorName b of
        None \<Rightarrow> Inl ValidationError
      | Some n \<Rightarrow>
          if n = [] then Inl ValidationError
          else (case b_categoryId b of
                  None \<Rightarrow> Inl ValidationError
                | Some c \<Rightarrow>
                    (case castObjectId c of
                       None \<Rightarrow> Inl ValidationError
                     | Some c' \<Rightarrow>
                         (case set_amount (b_amount b) (Some (Finite 0)) of
                            Inl err \<Rightarrow> Inl ValidationError
                          | Inr a \<Rightarrow>
                              (case set_date (b_date b) (Some (now e)) of
                                 Inl err \<Rightarrow> Inl ValidationError
                               | Inr t \<Rightarrow>
                                   Inr \<lparr>doc_id = fresh_id e, doc_donorName = n,
                                        doc_amount = a,
                                        doc_date = t,
                                        doc_categoryId = c',
                                        doc_notes = (case b_notes b of None \<Rightarrow> [] | Some t \<Rightarrow> t),
                                        doc_status =
                                          (case b_status b of
                                             None \<Rightarrow> Approved
                                           | Some st \<Rightarrow> st)\<rparr>)))))"

subsection \<open>The log helper\<close>

text \<open>\<open>req.headers[h] || 'admin'\<close>: an absent or empty header gives the default.\<close>

definition header_or :: "jsstring option \<Rightarrow> jsstring \<Rightarrow> jsstring" where
  "header_or h dflt = (case h of None \<Rightarrow> dflt | Some v \<Rightarrow> if v = [] then dflt else v)"

text \<open>
  \<open>createLog\<close> swallows every error: an entry whose user type is not one of the two
  of the schema's enum fails the validation of \<open>ActivityLog.create\<close> and is dropped.
\<close>

definition createLog :: "request \<Rightarrow> jsstring \<Rightarrow> jsstring \<Rightarrow> jsstring option \<Rightarrow> server \<Rightarrow> server" where
  "createLog req action entity entityId s =
     (let user = header_or (x_user req) (js ''admin'');
          userType = header_or (x_user_type req) (js ''admin'')
      in if userType = js ''admin'' \<or> userType = js ''subadmin''
         then s\<lparr>logs := logs s @
                  [\<lparr>log_action = action, log_entity = entity, log_entityId = entityId,
                    log_user = user, log_userType = userType\<rparr>]\<rparr>
         else s)"

subsection \<open>Donation routes\<close>

text \<open>
  \<open>!req.body.amount\<close> holds for an absent amount, for \<open>null\<close>, for 0 and for NaN;
  \<open>!req.body.date\<close> for an absent date, for \<open>null\<close>, for the number 0 and for the empty
  text.
\<close>

definition falsy_amount :: "number field \<Rightarrow> bool" where
  "falsy_amount a = (case a of Absent \<Rightarrow> True | Null \<Rightarrow> True | Val x \<Rightarrow> falsy_number x)"

definition falsy_date :: "date_input field \<Rightarrow> bool" where
  "falsy_date t =
     (case t of
        Absent \<Rightarrow> True
      | Null \<Rightarrow> True
      | Val (Millis n) \<Rightarrow> n = 0
      | Val (DateText x) \<Rightarrow> date_text x = [])"

text \<open>\<open>app.post('/api/donations')\<close>.\<close>

definition post_donation :: "env \<Rightarrow> request \<Rightarrow> server \<Rightarrow> response \<times> server" where
  "post_donation e req s =
     (let userType = header_or (x_user_type req) (js ''admin'');
          b = req_body req
      in if userType = js ''subadmin''
            \<and> (falsy_amount (b_amount b) \<or> falsy_date (b_date b))
         then (Rejected 400 (js ''Amount and Date are required for Sub-admins''), s)
         else
           (let donationData =
                  b\<lparr>b_status := Some (if userType = js ''subadmin'' then Pending else Approved)\<rparr>
            in case new_donation e donationData of
                 Inl err \<Rightarrow> (Failed 400 err, s)
               | Inr donation \<Rightarrow>
                   (Success 201,
                    createLog req (js ''ADD'') (js ''DONATION'') (Some (doc_id donation))
                      (s\<lparr>donations := donations s @ [donation]\<rparr>))))"

text \<open>\<open>app.put('/api/donations/:id')\<close>.\<close>

definition put_donation :: "jsstring \<Rightarrow> request \<Rightarrow> server \<Rightarrow> response \<times> server" where
  "put_donation ident req s =
     (case findById ident (donations s) of
        Inl err \<Rightarrow> (Failed 400 err, s)
      | Inr None \<Rightarrow> (Rejected 404 (js ''Donation not found''), s)
      | Inr (Some oldDonation) \<Rightarrow>
          (case update_donation (req_body req) oldDonation of
             Inl err \<Rightarrow> (Failed 400 err, s)
           | Inr donation \<Rightarrow>
               (Success 200,
                createLog req (js ''EDIT'') (js ''DONATION'') (Some (doc_id donation))
                  (s\<lparr>donations :=
                       map (\<lambda>d. if doc_id d = doc_id oldDonation then donation else d)
                         (donations s)\<rparr>))))"

text \<open>\<open>app.put('/api/donations/:id/approve')\<close>.\<close>

definition approve_donation :: "jsstring \<Rightarrow> request \<Rightarrow> server \<Rightarrow> response \<times> server" where
  "approve_donation ident req s =
     (case findById ident (donations s) of
        Inl err \<Rightarrow> (Failed 400 err, s)
      | Inr None \<Rightarrow> (Rejected 404 (js ''Donation not found''), s)
      | Inr (Some old) \<Rightarrow>
          (Success 200,
           createLog req (js ''APPROVE'') (js ''DONATION'') (Some (doc_id old))
             (s\<lparr>donations :=
                  map (\<lambda>d. if doc_id d = doc_id old then d\<lparr>doc_status := Approved\<rparr> else d)
                    (donations s)\<rparr>)))"

text \<open>\<open>app.delete('/api/donations/:id')\<close>: this handler answers an exception with 500.\<close>

definition delete_donation :: "jsstring \<Rightarrow> request \<Rightarrow> server \<Rightarrow> response \<times> server" where
  "delete_donation ident req s =
     (case findById ident (donations s) of
        Inl err \<Rightarrow> (Failed 500 err, s)
      | Inr None \<Rightarrow> (Rejected 404 (js ''Donation not found''), s)
      | Inr (Some donation) \<Rightarrow>
          (Success 200,
           (createLog req (js ''DELETE'') (js ''DONATION'') (Some (doc_id donation)) s)
             \<lparr>donations := filter (\<lambda>d. doc_id d \<noteq> doc_id donation) (donations s)\<rparr>))"

subsection \<open>Category routes\<close>

text \<open>
  \<open>app.post('/api/categories')\<close>: the new order key is one more than the largest,
  where \<open>maxOrder?.order || 0\<close> is 0 for no category and for a largest key 0.
\<close>

definition post_category :: "env \<Rightarrow> request \<Rightarrow> server \<Rightarrow> response \<times> server" where
  "post_category e req s =
     (case b_name (req_body req) of
        None \<Rightarrow> (Failed 400 ValidationError, s)
      | Some n \<Rightarrow>
          if n = [] then (Failed 400 ValidationError, s)
          else
            (let maxOrder = (if categories s = [] then 0
                             else Max (set (map cat_order (categories s))));
                 category = \<lparr>cat_id = fresh_id e, cat_name = n, cat_order = maxOrder + 1\<rparr>
             in (Success 201,
                 createLog req (js ''ADD'') (js ''CATEGORY'') (Some (cat_id category))
                   (s\<lparr>categories := categories s @ [category]\<rparr>))))"

text \<open>\<open>app.put('/api/categories/:id')\<close>.\<close>

definition put_category :: "jsstring \<Rightarrow> request \<Rightarrow> server \<Rightarrow> response \<times> server" where
  "put_category ident req s =
     (case findCategoryById ident (categories s) of
        Inl err \<Rightarrow> (Failed 400 err, s)
      | Inr None \<Rightarrow> (Rejected 404 (js ''Category not found''), s)
      | Inr (Some oldCategory) \<Rightarrow>
          (Success 200,
           createLog req (js ''EDIT'') (js ''CATEGORY'') (Some (cat_id oldCategory))
             (s\<lparr>categories :=
                  map (\<lambda>c. if cat_id c = cat_id oldCategory
                            then update_category (req_body req) c else c)
                    (categories s)\<rparr>)))"

text \<open>
  \<open>app.delete('/api/categories/:id')\<close>: refused while a donation refers to the
  category. The count is left out of the message.
\<close>

definition delete_category :: "jsstring \<Rightarrow> request \<Rightarrow> server \<Rightarrow> response \<times> server" where
  "delete_category ident req s =
     (case castObjectId ident of
        None \<Rightarrow> (Failed 500 CastError, s)
      | Some i \<Rightarrow>
          if filter (\<lambda>d. doc_categoryId d = i) (donations s) \<noteq> []
          then (Rejected 400 (js ''Cannot delete: donations exist in this category''), s)
          else (case find (\<lambda>c. cat_id c = i) (categories s) of
                  None \<Rightarrow> (Rejected 404 (js ''Category not found''), s)
                | Some category \<Rightarrow>
                    (Success 200,
                     (createLog req (js ''DELETE'') (js ''CATEGORY'') (Some (cat_id category)) s)
                       \<lparr>categories :=
                          filter (\<lambda>c. cat_id c \<noteq> cat_id category) (categories s)\<rparr>)))"

text \<open>
  \<open>app.put('/api/categories/reorder')\<close>: the assignments are applied one after the
  other; an identity that does not cast raises, which leaves the earlier ones applied.
  A body without \<open>orders\<close> raises a TypeError at the loop. No log entry is written.
\<close>

fun apply_orders :: "(jsstring \<times> int) list \<Rightarrow> category list \<Rightarrow> error option \<times> category list" where
  "apply_orders [] cats = (None, cats)"
| "apply_orders ((ident, k) # items) cats =
     (case castObjectId ident of
        None \<Rightarrow> (Some CastError, cats)
      | Some i \<Rightarrow>
          apply_orders items (map (\<lambda>c. if cat_id c = i then c\<lparr>cat_order := k\<rparr> else c) cats))"

definition reorder_categories :: "request \<Rightarrow> server \<Rightarrow> response \<times> server" where
  "reorder_categories req s =
     (case b_orders (req_body req) of
        None \<Rightarrow> (Failed 400 TypeError, s)
      | Some orders \<Rightarrow>
          (case apply_orders orders (categories s) of
             (Some err, cats) \<Rightarrow> (Failed 400 err, s\<lparr>categories := cats\<rparr>)
           | (None, cats) \<Rightarrow> (Success 200, s\<lparr>categories := cats\<rparr>)))"

subsection \<open>Dispatch\<close>

text \<open>
  The donation and category routes in the order in which \<open>server.js\<close> registers
  them. Express tries the routes in that order and runs the first whose method and
  path match; none of these handlers passes the request on. A segment \<open>:id\<close> matches
  any non-empty segment; the other segments match without regard to case. The routes
  registered before these (login) and after them have other paths.
\<close>

datatype segment = Lit jsstring | Param

datatype handler =
  GetDonations | PostDonation | PutDonation | ApproveDonation | DeleteDonation
  | GetCategories | PostCategory | PutCategory | DeleteCategory | ReorderCategories

definition routes :: "(http_method \<times> segment list \<times> handler) list" where
  "routes =
     [(GET, [Lit (js ''api''), Lit (js ''donations'')], GetDonations),
      (POST, [Lit (js ''api''), Lit (js ''donations'')], PostDonation),
      (PUT, [Lit (js ''api''), Lit (js ''donations''), Param], PutDonation),
      (PUT, [Lit (js ''api''), Lit (js ''donations''), Param, Lit (js ''approve'')],
         ApproveDonation),
      (DELETE, [Lit (js ''api''), Lit (js ''donations''), Param], DeleteDonation),
      (GET, [Lit (js ''api''), Lit (js ''categories'')], GetCategories),
      (POST, [Lit (js ''api''), Lit (js ''categories'')], PostCategory),
      (PUT, [Lit (js ''api''), Lit (js ''categories''), Param], PutCategory),
      (DELETE, [Lit (js ''api''), Lit (js ''categories''), Param], DeleteCategory),
      (PUT, [Lit (js ''api''), Lit (js ''categories''), Lit (js ''reorder'')],
         ReorderCategories)]"

text \<open>The parameters a pattern binds in a path, when it matches.\<close>

fun match_path :: "segment list \<Rightarrow> jsstring list \<Rightarrow> jsstring list option" where
  "match_path [] [] = Some []"
| "match_path (Lit l # pat) (seg # path) =
     (if lower_ascii seg = lower_ascii l then match_path pat path else None)"
| "match_path (Param # pat) (seg # path) =
     (if seg = [] then None else map_option (\<lambda>ps. seg # ps) (match_path pat path))"
| "match_path _ _ = None"

fun route_of :: "(http_method \<times> segment list \<times> handler) list \<Rightarrow> request
                 \<Rightarrow> (handler \<times> jsstring list) option" where
  "route_of [] req = None"
| "route_of ((m, pat, h) # rest) req =
     (if m = req_method req
      then (case match_path pat (req_path req) of
              None \<Rightarrow> route_of rest req
            | Some params \<Rightarrow> Some (h, params))
      else route_of rest req)"

text \<open>
  The handler that runs, with \<open>req.params.id\<close>. The two read-only routes leave the
  state as it is. \<open>None\<close>: the request is for none of these routes.
\<close>

definition dispatch :: "env \<Rightarrow> request \<Rightarrow> server \<Rightarrow> (response \<times> server) option" where
  "dispatch e req s =
     (case route_of routes req of
        None \<Rightarrow> None
      | Some (h, params) \<Rightarrow>
          (let ident = (case params of [] \<Rightarrow> [] | p # _ \<Rightarrow> p)
           in Some (case h of
                 GetDonations \<Rightarrow> (Success 200, s)
               | PostDonation \<Rightarrow> post_donation e req s
               | PutDonation \<Rightarrow> put_donation ident req s
               | ApproveDonation \<Rightarrow> approve_donation ident req s
               | DeleteDonation \<Rightarrow> delete_donation ident req s
               | GetCategories \<Rightarrow> (Success 200, s)
               | PostCategory \<Rightarrow> post_category e req s
               | PutCategory \<Rightarrow> put_category ident req s
               | DeleteCategory \<Rightarrow> delete_category ident req s
               | ReorderCategories \<Rightarrow> reorder_categories req s)))"

section \<open>Category ordering (client, \<open>moveCategoryUp\<close> and \<open>moveCategoryDown\<close>)\<close>

text \<open>
  \<open>apiPost\<close> and \<open>apiPut\<close> send the body with a content type only: the request
  carries neither \<open>x-user\<close> nor \<open>x-user-type\<close>.
\<close>

definition apiPost :: "jsstring list \<Rightarrow> body \<Rightarrow> request" where
  "apiPost path b =
     \<lparr>req_method = POST, req_path = path, x_user = None, x_user_type = None, req_body = b\<rparr>"

definition apiPut :: "jsstring list \<Rightarrow> body \<Rightarrow> request" where
  "apiPut path b =
     \<lparr>req_method = PUT, req_path = path, x_user = None, x_user_type = None, req_body = b\<rparr>"


text \<open>\<open>findIndex\<close>: the first position that satisfies the test, or \<open>-1\<close>.\<close>

fun findIndex :: "('a \<Rightarrow> bool) \<Rightarrow> 'a list \<Rightarrow> int" where
  "findIndex P [] = -1"
| "findIndex P (x # xs) =
     (if P x then 0 else (let i = findIndex P xs in if i < 0 then -1 else i + 1))"

text \<open>
  The exchange a move asks for. \<open>None\<close> is the early \<open>return\<close>. The sort is the
  stable sort by order key. \<open>moveCategoryDown\<close> with an identity that is not in a
  non-empty list reads \<open>sortedCategories[-1]._id\<close>, a TypeError.
\<close>

definition moveCategoryUp_orders :: "category list \<Rightarrow> jsstring \<Rightarrow> (jsstring \<times> int) list option" where
  "moveCategoryUp_orders categoriesCache ident =
     (let sortedCategories = sort_key cat_order categoriesCache;
          index = findIndex (\<lambda>c. cat_id c = ident) sortedCategories
      in if index \<le> 0 then None
         else Some [(cat_id (sortedCategories ! nat index),
                       cat_order (sortedCategories ! nat (index - 1))),
                    (cat_id (sortedCategories ! nat (index - 1)),
                       cat_order (sortedCategories ! nat index))])"

definition moveCategoryDown_orders :: "category list \<Rightarrow> jsstring \<Rightarrow> error + (jsstring \<times> int) list option" where
  "moveCategoryDown_orders categoriesCache ident =
     (let sortedCategories = sort_key cat_order categoriesCache;
          index = findIndex (\<lambda>c. cat_id c = ident) sortedCategories
      in if int (length sortedCategories) - 1 \<le> index then Inr None
         else if index < 0 then Inl TypeError
         else Inr (Some [(cat_id (sortedCategories ! nat index),
                            cat_order (sortedCategories ! nat (index + 1))),
                         (cat_id (sortedCategories ! nat (index + 1)),
                            cat_order (sortedCategories ! nat index))]))"

text \<open>
  The list after the order keys at the positions \<open>i - 1\<close> and \<open>i\<close> have changed
  places, every other field and element as it was.
\<close>

definition exchange :: "nat \<Rightarrow> category list \<Rightarrow> category list" where
  "exchange i cats =
     cats[i := (cats ! i)\<lparr>cat_order := cat_order (cats ! (i - 1))\<rparr>,
          i - 1 := (cats ! (i - 1))\<lparr>cat_order := cat_order (cats ! i)\<rparr>]"

text \<open>
  The whole move: the request \<open>PUT /api/categories/reorder\<close> with the exchange, as
  the server answers it. Without a request the server is not touched.
\<close>

definition reorder_path :: "jsstring list" where
  "reorder_path = [js ''api'', js ''categories'', js ''reorder'']"

definition moveCategoryUp :: "env \<Rightarrow> category list \<Rightarrow> jsstring \<Rightarrow> server \<Rightarrow> (response \<times> server) option" where
  "moveCategoryUp e categoriesCache ident s =
     (case moveCategoryUp_orders categoriesCache ident of
        None \<Rightarrow> None
      | Some orders \<Rightarrow> dispatch e (apiPut reorder_path (empty_body\<lparr>b_orders := Some orders\<rparr>)) s)"

definition moveCategoryDown :: "env \<Rightarrow> category list \<Rightarrow> jsstring \<Rightarrow> server
                                \<Rightarrow> error + (response \<times> server) option" where
  "moveCategoryDown e categoriesCache ident s =
     (case moveCategoryDown_orders categoriesCache ident of
        Inl err \<Rightarrow> Inl err
      | Inr None \<Rightarrow> Inr None
      | Inr (Some orders) \<Rightarrow>
          Inr (dispatch e (apiPut reorder_path (empty_body\<lparr>b_orders := Some orders\<rparr>)) s))"

section \<open>Donation actions of the client and sequences of operations\<close>


text \<open>
  \<open>parseInt\<close> of a text, without a radix: white space in front is skipped, a sign is
  read, \<open>0x\<close> or \<open>0X\<close> announces hexadecimal digits, and the digits up to the first
  other code unit are the value, rounded to a double; no digit gives NaN. (For more
  than 20 decimal digits an engine may read the digits after the 20th as 0; the
  digits are read as they are here.)
\<close>

definition digit_value :: "code_unit \<Rightarrow> nat option" where
  "digit_value c =
     (if 0x30 \<le> c \<and> c \<le> 0x39 then Some (unat c - 48)
      else if 0x61 \<le> c \<and> c \<le> 0x66 then Some (unat c - 87)
      else if 0x41 \<le> c \<and> c \<le> 0x46 then Some (unat c - 55)
      else None)"

definition is_digit :: "nat \<Rightarrow> code_unit \<Rightarrow> bool" where
  "is_digit R c = (case digit_value c of None \<Rightarrow> False | Some v \<Rightarrow> v < R)"

definition digits_value :: "nat \<Rightarrow> jsstring \<Rightarrow> nat" where
  "digits_value R z = foldl (\<lambda>acc c. acc * R + (case digit_value c of None \<Rightarrow> 0 | Some v \<Rightarrow> v)) 0 z"

definition parseInt :: "jsstring \<Rightarrow> number" where
  "parseInt inputString =
     (let S = dropWhile isWhiteSpace inputString;
          negative = (S \<noteq> [] \<and> hd S = 0x2D);
          S1 = (if S \<noteq> [] \<and> (hd S = 0x2B \<or> hd S = 0x2D) then tl S else S);
          hex = (take 2 S1 = js ''0x'' \<or> take 2 S1 = js ''0X'');
          R = (if hex then 16 else 10);
          S2 = (if hex then drop 2 S1 else S1);
          Z = takeWhile (is_digit R) S2
      in if Z = [] then NaN
         else fl (if negative then - of_nat (digits_value R Z) else of_nat (digits_value R Z)))"

text \<open>\<open>JSON.stringify\<close> writes NaN and the infinities as \<open>null\<close>.\<close>

definition json_number :: "number \<Rightarrow> number field" where
  "json_number x = (case x of Finite q \<Rightarrow> Val (Finite q) | _ \<Rightarrow> Null)"

text \<open>
  The donation form: the values of the inputs \<open>donationId\<close>, \<open>donorName\<close>,
  \<open>donationAmount\<close>, \<open>donationDate\<close>, \<open>donationCategory\<close> and \<open>donationNotes\<close>.
\<close>

record donation_form =
  form_donationId :: jsstring
  form_donorName :: jsstring
  form_donationAmount :: jsstring
  form_donationDate :: jsdate
  form_donationCategory :: jsstring
  form_donationNotes :: jsstring

text \<open>
  \<open>handleDonationSubmit\<close> builds the donation from the form and sends it, as an
  update when the form carries an identity and as a new donation otherwise. It reads
  neither \<open>currentUser\<close> nor a permission, and the request it sends names no user.
\<close>

definition donationData_of_form :: "donation_form \<Rightarrow> body" where
  "donationData_of_form f =
     empty_body
       \<lparr>b_donorName := Some (trim (form_donorName f)),
        b_amount := json_number (parseInt (form_donationAmount f)),
        b_date := Val (DateText (form_donationDate f)),
        b_categoryId := Some (form_donationCategory f),
        b_notes := Some (trim (form_donationNotes f))\<rparr>"

definition handleDonationSubmit :: "env \<Rightarrow> donation_form \<Rightarrow> server
                                    \<Rightarrow> (response \<times> server) option" where
  "handleDonationSubmit e f s =
     (if form_donationId f \<noteq> []
      then dispatch e
             (apiPut [js ''api'', js ''donations'', form_donationId f] (donationData_of_form f)) s
      else dispatch e (apiPost [js ''api'', js ''donations''] (donationData_of_form f)) s)"

text \<open>A request sent in the name of a user: the two headers the server reads.\<close>

definition acting_as :: "user \<Rightarrow> request \<Rightarrow> request" where
  "acting_as u req = req\<lparr>x_user := Some (username u), x_user_type := Some (user_type u)\<rparr>"







subsection \<open>A sample store\<close>

definition ram_id :: jsstring where
  "ram_id = js ''65b0000000000000000000a1''"

definition stored_ram :: donation_doc where
  "stored_ram =
     \<lparr>doc_id = ram_id, doc_donorName = js ''Ram'', doc_amount = Some (Finite 500),
      doc_date = Some 1705536000000, doc_categoryId = mandir_hall, doc_notes = js ''hall'',
      doc_status = Approved\<rparr>"

definition temple :: server where
  "temple =
     \<lparr>donations = [stored_ram],
      categories = [\<lparr>cat_id = mandir_hall, cat_name = js ''Hall'', cat_order = 1\<rparr>,
                    \<lparr>cat_id = ganesh_chowk, cat_name = js ''Chowk'', cat_order = 2\<rparr>],
      logs = []\<rparr>"

definition ravi :: user where
  "ravi = subadmin_user (js ''ravi'')
            \<lparr>canAddDonation = True, canEditDonation = False, canDeleteDonation = False,
             canManageCategory = False, assignedCategories = Some []\<rparr>"

definition today :: env where
  "today = \<lparr>fresh_id = js ''65b0000000000000000000b7'', now = 1706745600000\<rparr>"

subsection \<open>Sample requests\<close>



text \<open>
  The form as the sub-admin \<open>ravi\<close> fills it in for a new donation of 100 rupees, the
  date left empty.
\<close>

definition sita_form :: donation_form where
  "sita_form =
     \<lparr>form_donationId = [], form_donorName = js ''Sita'', form_donationAmount = js ''100'',
      form_donationDate = JsDate [] None, form_donationCategory = ganesh_chowk,
      form_donationNotes = []\<rparr>"

text \<open>The same form with the first of February 2024 as its date.\<close>

definition sita_form_dated :: donation_form where
  "sita_form_dated =
     sita_form\<lparr>form_donationDate := JsDate (js ''2024-02-01'') (Some 1706745600000)\<rparr>"

section \<open>Properties\<close>

subsection \<open>Whole numbers below \<open>2^53\<close> are added without rounding\<close>

lemma round_half_even_int: "round_half_even (of_int z) = z"
  by (simp add: round_half_even_def Let_def)

lemma ilog2_int_le:
  assumes "0 < n" "n < 2 ^ 53"
  shows "ilog2 (of_int n) \<le> 52"
proof -
  have "bitlen n \<le> 53" using assms by (simp add: bitlen_le_iff_power)
  moreover have "bitlen 1 = 1" by (simp add: bitlen_alt_def)
  ultimately show ?thesis
    by (auto simp: ilog2_def Let_def quotient_of_int split: if_splits)
qed

lemma fl_int:
  assumes "\<bar>n\<bar> < 2 ^ 53"
  shows "fl (of_int n) = Finite (of_int n)"
proof (cases "n = 0")
  case True
  then show ?thesis by (simp add: fl_def)
next
  case False
  define m where "m = \<bar>n\<bar>"
  have m: "0 < m" "m < 2 ^ 53" using False assms by (simp_all add: m_def)
  define e where "e = max (ilog2 (of_int m)) (- 1022) - 52"
  have e: "e \<le> 0" using ilog2_int_le [OF m] by (simp add: e_def)
  define k where "k = nat (- e)"
  have u: "two_to e = 1 / 2 ^ k"
    using e by (cases "e = 0") (simp_all add: two_to_def k_def)
  have q: "(of_int m :: rat) / two_to e = of_int (m * 2 ^ k)"
    by (simp add: u)
  have r: "of_int (round_half_even (of_int m / two_to e)) * two_to e = (of_int m :: rat)"
    unfolding q round_half_even_int by (simp add: u)
  have small: "\<not> (2 :: rat) ^ 1024 \<le> of_int m"
  proof -
    have "(of_int m :: rat) < of_int (2 ^ 53)" using m(2) by (simp only: of_int_less_iff)
    also have "\<dots> \<le> 2 ^ 1024" by simp
    finally show ?thesis by simp
  qed
  have abs: "\<bar>of_int n :: rat\<bar> = of_int m" by (simp add: m_def)
  have n0: "(of_int n :: rat) \<noteq> 0" using False by simp
  have "fl (of_int n) = Finite (if 0 < (of_int n :: rat) then of_int m else - of_int m)"
    unfolding fl_def Let_def abs e_def [symmetric] r using n0 small by (simp only: if_False)
  also have "(if 0 < (of_int n :: rat) then of_int m else - of_int m) = (of_int n :: rat)"
    by (simp add: m_def)
  finally show ?thesis .
qed

lemma js_plus_int:
  assumes "\<bar>a + b\<bar> < 2 ^ 53"
  shows "js_plus (Finite (of_int a)) (Finite (of_int b)) = Finite (of_int (a + b))"
  using fl_int [OF assms] by simp

lemma is_integer_cases:
  assumes "is_integer x"
  shows "x = Finite (of_int (int_of x))"
  using assms by (cases x) auto

lemma foldl_js_plus_exact:
  assumes "list_all is_integer xs"
    and "\<bar>a\<bar> + sum_list (map (\<lambda>x. \<bar>int_of x\<bar>) xs) < 2 ^ 53"
  shows "foldl js_plus (Finite (of_int a)) xs = Finite (of_int (a + sum_list (map int_of xs)))"
  using assms
proof (induction xs arbitrary: a)
  case Nil
  then show ?case by simp
next
  case (Cons x xs)
  from Cons.prems(1) have x: "x = Finite (of_int (int_of x))" and xs: "list_all is_integer xs"
    by (simp_all add: is_integer_cases)
  have bound: "\<bar>a + int_of x\<bar> + sum_list (map (\<lambda>x. \<bar>int_of x\<bar>) xs) < 2 ^ 53"
    using Cons.prems(2) by simp
  have nonneg: "0 \<le> sum_list (map (\<lambda>x. \<bar>int_of x\<bar>) xs)"
    by (rule sum_list_nonneg) auto
  have "\<bar>a + int_of x\<bar> < 2 ^ 53" using bound nonneg by linarith
  then have step: "js_plus (Finite (of_int a)) x = Finite (of_int (a + int_of x))"
    using js_plus_int [of a "int_of x"] x by simp
  have "foldl js_plus (Finite (of_int a)) (x # xs) = foldl js_plus (Finite (of_int (a + int_of x))) xs"
    by (simp only: foldl_Cons step)
  also have "\<dots> = Finite (of_int (a + int_of x + sum_list (map int_of xs)))"
    by (rule Cons.IH [OF xs bound])
  finally show ?case by (simp add: add.assoc)
qed

subsection \<open>The accumulator as an association list\<close>

lemma update_absent: "map_of g k = None \<Longrightarrow> AList.update k v g = g @ [(k, v)]"
  by (induction g) (auto split: if_splits)

lemma update_present:
  "distinct (map fst g) \<Longrightarrow> map_of g k = Some a \<Longrightarrow>
   AList.update k v g = map (\<lambda>(k', a'). (k', if k' = k then v else a')) g"
proof (induction g)
  case Nil
  then show ?case by simp
next
  case (Cons p g)
  obtain k0 a0 where p: "p = (k0, a0)" by (cases p)
  show ?case
  proof (cases "k0 = k")
    case True
    with Cons.prems p have "k \<notin> fst ` set g" by auto
    then have "map (\<lambda>(k', a'). (k', if k' = k then v else a')) g = g"
      by (induction g) auto
    with True p show ?thesis by simp
  next
    case False
    with Cons p show ?thesis by simp
  qed
qed

lemma first_occurrences_filter:
  "first_occurrences (filter P xs) = filter P (first_occurrences xs)"
proof (induction xs)
  case Nil
  then show ?case by simp
next
  case (Cons a xs)
  have "\<not> P a \<Longrightarrow> filter P (first_occurrences xs) =
        filter (\<lambda>x. P x \<and> x \<noteq> a) (first_occurrences xs)"
    by (rule filter_cong) auto
  with Cons show ?case by (auto simp: conj_commute)
qed

lemma set_first_occurrences: "set (first_occurrences xs) = set xs"
  by (induction xs) auto

lemma distinct_first_occurrences: "distinct (first_occurrences xs)"
  by (induction xs) (auto simp: set_first_occurrences)

lemma foldl_add_donation:
  "foldl add_donation g cs =
     g\<lparr>g_amount := foldl js_plus (g_amount g) (map amount_or_0 cs),
       g_date := latest_date (g_date g) cs,
       g_history := g_history g @ map history_of cs\<rparr>"
  by (induction cs arbitrary: g) (simp_all add: add_donation_def latest_date_def)

lemma foldl_new_group:
  "cs \<noteq> [] \<Longrightarrow> foldl add_donation (new_group (hd cs)) cs = aggregate_of cs"
  by (simp add: foldl_add_donation new_group_def aggregate_of_def)


lemma group_fold:
  "distinct (map fst g) \<Longrightarrow>
   foldl (group_step toLowerCase) g ds =
     map (\<lambda>(k, a). (k, foldl add_donation a (constituents toLowerCase ds k))) g
     @ map (\<lambda>k. (k, aggregate_of (constituents toLowerCase ds k)))
         (first_occurrences (filter (\<lambda>k. k \<notin> fst ` set g) (map (nameKey toLowerCase) ds)))"
proof (induction ds arbitrary: g)
  case Nil
  then show ?case by (simp add: constituents_def)
next
  case (Cons d ds)
  let ?k = "nameKey toLowerCase d"
  show ?case
  proof (cases "map_of g ?k")
    case None
    then have notin: "?k \<notin> fst ` set g" by (simp add: map_of_eq_None_iff)
    let ?g' = "g @ [(?k, add_donation (new_group d) d)]"
    have step: "group_step toLowerCase g d = ?g'"
      using None by (simp add: group_step_def update_absent)
    have dist: "distinct (map fst ?g')" using Cons.prems notin by simp
    have old: "map (\<lambda>(k, a). (k, foldl add_donation a (constituents toLowerCase ds k))) g
             = map (\<lambda>(k, a). (k, foldl add_donation a (constituents toLowerCase (d # ds) k))) g"
    proof (rule map_cong [OF refl])
      fix x assume "x \<in> set g"
      then have "fst x \<noteq> ?k" using notin by force
      then show "(case x of (k, a) \<Rightarrow> (k, foldl add_donation a (constituents toLowerCase ds k)))
               = (case x of (k, a) \<Rightarrow> (k, foldl add_donation a (constituents toLowerCase (d # ds) k)))"
        by (cases x) (simp add: constituents_def)
    qed
    have new: "foldl add_donation (add_donation (new_group d) d) (constituents toLowerCase ds ?k)
             = aggregate_of (constituents toLowerCase (d # ds) ?k)"
      using foldl_new_group [of "d # constituents toLowerCase ds ?k"] by (simp add: constituents_def)
    have rest: "map (\<lambda>k. (k, aggregate_of (constituents toLowerCase ds k)))
                 (first_occurrences (filter (\<lambda>k. k \<notin> fst ` set ?g') (map (nameKey toLowerCase) ds)))
              = map (\<lambda>k. (k, aggregate_of (constituents toLowerCase (d # ds) k)))
                 (filter (\<lambda>y. y \<noteq> ?k)
                    (first_occurrences (filter (\<lambda>k. k \<notin> fst ` set g) (map (nameKey toLowerCase) ds))))"
    proof -
      have "filter (\<lambda>k. k \<notin> fst ` set ?g') (map (nameKey toLowerCase) ds)
            = filter (\<lambda>y. y \<noteq> ?k) (filter (\<lambda>k. k \<notin> fst ` set g) (map (nameKey toLowerCase) ds))"
        by (auto intro: filter_cong)
      then show ?thesis
        by (auto simp: first_occurrences_filter constituents_def)
    qed
    have keys: "first_occurrences (filter (\<lambda>k. k \<notin> fst ` set g) (map (nameKey toLowerCase) (d # ds)))
        = ?k # filter (\<lambda>y. y \<noteq> ?k)
                 (first_occurrences (filter (\<lambda>k. k \<notin> fst ` set g) (map (nameKey toLowerCase) ds)))"
      using notin by simp
    have "foldl (group_step toLowerCase) g (d # ds) = foldl (group_step toLowerCase) ?g' ds"
      by (simp only: foldl_Cons step)
    also have "\<dots> = map (\<lambda>(k, a). (k, foldl add_donation a (constituents toLowerCase ds k))) ?g'
         @ map (\<lambda>k. (k, aggregate_of (constituents toLowerCase ds k)))
             (first_occurrences (filter (\<lambda>k. k \<notin> fst ` set ?g') (map (nameKey toLowerCase) ds)))"
      by (rule Cons.IH [OF dist])
    also have "\<dots> = map (\<lambda>(k, a). (k, foldl add_donation a (constituents toLowerCase (d # ds) k))) g
         @ (?k, aggregate_of (constituents toLowerCase (d # ds) ?k))
         # map (\<lambda>k. (k, aggregate_of (constituents toLowerCase (d # ds) k)))
                 (filter (\<lambda>y. y \<noteq> ?k)
                    (first_occurrences (filter (\<lambda>k. k \<notin> fst ` set g) (map (nameKey toLowerCase) ds))))"
      by (simp only: rest map_append old new list.map prod.case append_assoc append.simps)
    finally show ?thesis unfolding keys by (simp only: list.map)
  next
    case (Some a)
    then have isin: "?k \<in> fst ` set g" by (metis map_of_eq_None_iff option.distinct(1))
    let ?g' = "map (\<lambda>(k', a'). (k', if k' = ?k then add_donation a d else a')) g"
    have step: "group_step toLowerCase g d = ?g'"
      using Some Cons.prems by (simp add: group_step_def update_present)
    have fst_eq: "map fst ?g' = map fst g" by (induction g) auto
    have dist: "distinct (map fst ?g')" using Cons.prems by (simp only: fst_eq)
    have "set (map fst ?g') = set (map fst g)" by (simp only: fst_eq)
    then have keys: "fst ` set ?g' = fst ` set g" by (simp only: set_map)
    have old: "map (\<lambda>(k, a). (k, foldl add_donation a (constituents toLowerCase ds k))) ?g'
             = map (\<lambda>(k, a). (k, foldl add_donation a (constituents toLowerCase (d # ds) k))) g"
    proof -
      have "(case (case x of (k', a') \<Rightarrow> (k', if k' = ?k then add_donation a d else a')) of
               (k, a) \<Rightarrow> (k, foldl add_donation a (constituents toLowerCase ds k)))
            = (case x of (k, a) \<Rightarrow> (k, foldl add_donation a (constituents toLowerCase (d # ds) k)))"
        if "x \<in> set g" for x
      proof (cases x)
        case (Pair k' a')
        show ?thesis
        proof (cases "k' = ?k")
          case True
          with Pair that Cons.prems have "map_of g ?k = Some a'" by simp
          with Some have "a' = a" by simp
          with True Pair show ?thesis by (simp add: constituents_def)
        next
          case False
          with Pair show ?thesis by (simp add: constituents_def)
        qed
      qed
      then show ?thesis by (simp add: comp_def)
    qed
    have rest: "map (\<lambda>k. (k, aggregate_of (constituents toLowerCase ds k)))
                 (first_occurrences (filter (\<lambda>k. k \<notin> fst ` set g) (map (nameKey toLowerCase) ds)))
              = map (\<lambda>k. (k, aggregate_of (constituents toLowerCase (d # ds) k)))
                 (first_occurrences (filter (\<lambda>k. k \<notin> fst ` set g) (map (nameKey toLowerCase) ds)))"
      using isin by (auto simp: constituents_def set_first_occurrences)
    have same: "filter (\<lambda>k. k \<notin> fst ` set g) (map (nameKey toLowerCase) (d # ds))
        = filter (\<lambda>k. k \<notin> fst ` set g) (map (nameKey toLowerCase) ds)"
      using isin by simp
    have "foldl (group_step toLowerCase) g (d # ds) = foldl (group_step toLowerCase) ?g' ds"
      by (simp only: foldl_Cons step)
    also have "\<dots> = map (\<lambda>(k, a). (k, foldl add_donation a (constituents toLowerCase ds k))) ?g'
         @ map (\<lambda>k. (k, aggregate_of (constituents toLowerCase ds k)))
             (first_occurrences (filter (\<lambda>k. k \<notin> fst ` set ?g') (map (nameKey toLowerCase) ds)))"
      by (rule Cons.IH [OF dist])
    finally show ?thesis unfolding same by (simp only: keys old rest)
  qed
qed


lemma groupDonationsByName_eq:
  "groupDonationsByName toLowerCase ds =
     map (\<lambda>k. aggregate_of (constituents toLowerCase ds k)) (first_occurrences (map (nameKey toLowerCase) ds))"
  using group_fold [of "[]" _ ds] by (simp add: groupDonationsByName_def comp_def)

lemma js_unknown: "js ''unknown'' = [0x75, 0x6E, 0x6B, 0x6E, 0x6F, 0x77, 0x6E]"
  by (simp add: js_def)

lemma wf_ref_cases:
  "wf_ref r \<Longrightarrow>
     (category_key r = js ''unknown'' \<and> category_of r = None)
     \<or> (is_object_id (category_key r) \<and> category_of r = Some (category_key r))"
  by (cases r) (auto simp: is_object_id_def)

lemma object_id_not_unknown:
  assumes "is_object_id s" shows "n1 @ u @ s \<noteq> n2 @ u' @ js ''unknown''"
proof
  assume eq: "n1 @ u @ s = n2 @ u' @ js ''unknown''"
  from assms have ne: "s \<noteq> []" and hex: "list_all is_hex s"
    by (auto simp: is_object_id_def)
  from ne have "last (n1 @ u @ s) = last s" by simp
  moreover have "last (n2 @ u' @ js ''unknown'') = 0x6E" by (simp add: js_unknown)
  ultimately have "last s = 0x6E" using eq by simp
  moreover from ne hex have "is_hex (last s)" by (simp add: list_all_iff)
  ultimately show False by (simp add: is_hex_def)
qed

lemma key_determines_category:
  assumes "wf_ref r1" "wf_ref r2"
    and "n1 @ js ''_'' @ category_key r1 = n2 @ js ''_'' @ category_key r2"
  shows "category_of r1 = category_of r2"
proof -
  consider (uu) "category_key r1 = js ''unknown''" "category_of r1 = None"
               "category_key r2 = js ''unknown''" "category_of r2 = None"
    | (ui) "category_key r1 = js ''unknown''" "is_object_id (category_key r2)"
    | (iu) "is_object_id (category_key r1)" "category_key r2 = js ''unknown''"
    | (ii) "is_object_id (category_key r1)" "category_of r1 = Some (category_key r1)"
           "is_object_id (category_key r2)" "category_of r2 = Some (category_key r2)"
    using wf_ref_cases [OF assms(1)] wf_ref_cases [OF assms(2)] by argo
  then show ?thesis
  proof cases
    case uu then show ?thesis by simp
  next
    case ui
    with assms(3) object_id_not_unknown [of "category_key r2" n2 "js ''_''" n1 "js ''_''"]
    show ?thesis by simp
  next
    case iu
    with assms(3) object_id_not_unknown [of "category_key r1" n1 "js ''_''" n2 "js ''_''"]
    show ?thesis by simp
  next
    case ii
    then have "length (category_key r1) = length (category_key r2)"
      by (simp add: is_object_id_def)
    with assms(3) have "category_key r1 = category_key r2" by simp
    with ii show ?thesis by simp
  qed
qed

lemma sum_list_split_out:
  "distinct xs \<Longrightarrow>
   sum_list (map (S :: 'a \<Rightarrow> int) xs)
     = (if x \<in> set xs then S x else 0) + sum_list (map S (filter (\<lambda>y. y \<noteq> x) xs))"
  by (induction xs) auto

lemma regroup:
  "sum_list (map (\<lambda>k. sum_list (map (f :: 'a \<Rightarrow> int) (filter (\<lambda>d. key d = k) ds)))
      (filter Q (first_occurrences (map key ds))))
   = sum_list (map f (filter (\<lambda>d. Q (key d)) ds))"
proof (induction ds)
  case Nil
  then show ?case by simp
next
  case (Cons d ds)
  let ?S = "\<lambda>k. sum_list (map f (filter (\<lambda>d. key d = k) ds))"
  let ?fo = "filter Q (first_occurrences (map key ds))"
  have dist: "distinct ?fo" by (simp add: distinct_first_occurrences)
  have others: "sum_list (map (\<lambda>k. sum_list (map f (filter (\<lambda>d. key d = k) (d # ds))))
                   (filter (\<lambda>y. y \<noteq> key d) ?fo))
              = sum_list (map ?S (filter (\<lambda>y. y \<noteq> key d) ?fo))"
    by (rule arg_cong [where f = sum_list], rule map_cong) auto
  have zero: "?S (key d) = 0" if "key d \<notin> set (map key ds)"
  proof -
    from that have "\<forall>d'\<in>set ds. key d' \<noteq> key d" by (metis imageI list.set_map)
    then have "filter (\<lambda>d'. key d' = key d) ds = []" by (simp add: filter_empty_conv)
    then show ?thesis by simp
  qed
  have comm: "filter Q (filter (\<lambda>y. y \<noteq> key d) (first_occurrences (map key ds)))
            = filter (\<lambda>y. y \<noteq> key d) ?fo"
    by (auto intro: filter_cong)
  show ?case
  proof (cases "Q (key d)")
    case True
    have "?S (key d) + sum_list (map ?S (filter (\<lambda>y. y \<noteq> key d) ?fo)) = sum_list (map ?S ?fo)"
      using sum_list_split_out [OF dist, of ?S "key d"] True zero
      by (auto simp: set_first_occurrences)
    with True Cons.IH others comm show ?thesis by simp
  next
    case False
    then have "filter (\<lambda>y. y \<noteq> key d) ?fo = ?fo"
      unfolding filter_id_conv by auto
    with False Cons.IH others comm show ?thesis by simp
  qed
qed


lemma same_key_same_category:
  assumes "wf_ref (categoryId d)" "wf_ref (categoryId d')" "nameKey toLowerCase d' = nameKey toLowerCase d"
  shows "category_of (categoryId d') = category_of (categoryId d)"
  using assms key_determines_category [of "categoryId d'" "categoryId d"]
  by (simp add: nameKey_def)

lemma hd_constituents:
  assumes "d \<in> set ds"
  shows "hd (constituents toLowerCase ds (nameKey toLowerCase d)) \<in> set ds
         \<and> nameKey toLowerCase (hd (constituents toLowerCase ds (nameKey toLowerCase d))) = nameKey toLowerCase d"
proof -
  from assms have "constituents toLowerCase ds (nameKey toLowerCase d) \<noteq> []"
    by (auto simp: constituents_def filter_empty_conv)
  then have "hd (constituents toLowerCase ds (nameKey toLowerCase d)) \<in> set (constituents toLowerCase ds (nameKey toLowerCase d))"
    by (rule hd_in_set)
  then show ?thesis by (simp add: constituents_def)
qed

subsection \<open>The representative date\<close>

lemma later_valid:
  "date_time a \<noteq> None \<Longrightarrow> date_time b \<noteq> None \<Longrightarrow> later a b = (time_value b < time_value a)"
  by (auto simp: later_def time_value_def)

lemma latest_date_first_max:
  assumes "date_time d0 \<noteq> None" "\<forall>d\<in>set cs. date_time (date d) \<noteq> None"
  shows "(latest_date d0 cs = d0 \<and> (\<forall>d\<in>set cs. time_value (date d) \<le> time_value d0))
       \<or> (\<exists>pre d post. cs = pre @ d # post \<and> latest_date d0 cs = date d
             \<and> time_value d0 < time_value (date d)
             \<and> (\<forall>e\<in>set pre. time_value (date e) < time_value (date d))
             \<and> (\<forall>e\<in>set post. time_value (date e) \<le> time_value (date d)))"
  using assms
proof (induction cs arbitrary: d0)
  case Nil
  then show ?case by (simp add: latest_date_def)
next
  case (Cons x xs)
  have vx: "date_time (date x) \<noteq> None" and vxs: "\<forall>d\<in>set xs. date_time (date d) \<noteq> None"
    using Cons.prems(2) by simp_all
  show ?case
  proof (cases "later (date x) d0")
    case True
    then have lt: "time_value d0 < time_value (date x)"
      using later_valid [OF vx Cons.prems(1)] by simp
    have unfold: "latest_date d0 (x # xs) = latest_date (date x) xs"
      using True by (simp add: latest_date_def)
    from Cons.IH [OF vx vxs] show ?thesis
    proof (elim disjE exE conjE)
      assume "latest_date (date x) xs = date x"
        and "\<forall>d\<in>set xs. time_value (date d) \<le> time_value (date x)"
      then have "x # xs = [] @ x # xs \<and> latest_date d0 (x # xs) = date x
          \<and> time_value d0 < time_value (date x)
          \<and> (\<forall>e\<in>set []. time_value (date e) < time_value (date x))
          \<and> (\<forall>e\<in>set xs. time_value (date e) \<le> time_value (date x))"
        using lt unfold by simp
      then show ?thesis by blast
    next
      fix pre d post
      assume "xs = pre @ d # post" "latest_date (date x) xs = date d"
        "time_value (date x) < time_value (date d)"
        "\<forall>e\<in>set pre. time_value (date e) < time_value (date d)"
        "\<forall>e\<in>set post. time_value (date e) \<le> time_value (date d)"
      then have "x # xs = (x # pre) @ d # post \<and> latest_date d0 (x # xs) = date d
          \<and> time_value d0 < time_value (date d)
          \<and> (\<forall>e\<in>set (x # pre). time_value (date e) < time_value (date d))
          \<and> (\<forall>e\<in>set post. time_value (date e) \<le> time_value (date d))"
        using lt unfold by auto
      then show ?thesis by blast
    qed
  next
    case False
    then have le: "time_value (date x) \<le> time_value d0"
      using later_valid [OF vx Cons.prems(1)] by simp
    have unfold: "latest_date d0 (x # xs) = latest_date d0 xs"
      using False by (simp add: latest_date_def)
    from Cons.IH [OF Cons.prems(1) vxs] show ?thesis
    proof (elim disjE exE conjE)
      assume "latest_date d0 xs = d0" and "\<forall>d\<in>set xs. time_value (date d) \<le> time_value d0"
      then show ?thesis using le unfold by simp
    next
      fix pre d post
      assume "xs = pre @ d # post" "latest_date d0 xs = date d"
        "time_value d0 < time_value (date d)"
        "\<forall>e\<in>set pre. time_value (date e) < time_value (date d)"
        "\<forall>e\<in>set post. time_value (date e) \<le> time_value (date d)"
      then have "x # xs = (x # pre) @ d # post \<and> latest_date d0 (x # xs) = date d
          \<and> time_value d0 < time_value (date d)
          \<and> (\<forall>e\<in>set (x # pre). time_value (date e) < time_value (date d))
          \<and> (\<forall>e\<in>set post. time_value (date e) \<le> time_value (date d))"
        using le unfold by auto
      then show ?thesis by blast
    qed
  qed
qed

lemma representative_date:
  assumes "cs \<noteq> []" "\<forall>d\<in>set cs. date_time (date d) \<noteq> None"
  shows "\<exists>pre d post. cs = pre @ d # post \<and> latest_date (date (hd cs)) cs = date d
             \<and> (\<forall>e\<in>set pre. time_value (date e) < time_value (date d))
             \<and> (\<forall>e\<in>set post. time_value (date e) \<le> time_value (date d))"
proof -
  from assms(1) obtain c tl where cs: "cs = c # tl" by (cases cs) auto
  have first: "latest_date (date c) (c # tl) = latest_date (date c) tl"
    by (simp add: latest_date_def later_def split: option.splits)
  from assms(2) cs have v: "date_time (date c) \<noteq> None" "\<forall>d\<in>set tl. date_time (date d) \<noteq> None"
    by simp_all
  from latest_date_first_max [OF v] show ?thesis
  proof (elim disjE exE conjE)
    assume "latest_date (date c) tl = date c"
      and "\<forall>d\<in>set tl. time_value (date d) \<le> time_value (date c)"
    then have "cs = [] @ c # tl \<and> latest_date (date (hd cs)) cs = date c
          \<and> (\<forall>e\<in>set []. time_value (date e) < time_value (date c))
          \<and> (\<forall>e\<in>set tl. time_value (date e) \<le> time_value (date c))"
      using cs first by simp
    then show ?thesis by blast
  next
    fix pre d post
    assume "tl = pre @ d # post" "latest_date (date c) tl = date d"
        "time_value (date c) < time_value (date d)"
        "\<forall>e\<in>set pre. time_value (date e) < time_value (date d)"
        "\<forall>e\<in>set post. time_value (date e) \<le> time_value (date d)"
    then have "cs = (c # pre) @ d # post \<and> latest_date (date (hd cs)) cs = date d
          \<and> (\<forall>e\<in>set (c # pre). time_value (date e) < time_value (date d))
          \<and> (\<forall>e\<in>set post. time_value (date e) \<le> time_value (date d))"
      using cs first by auto
    then show ?thesis by blast
  qed
qed

lemma donor_key_aggregate_of:
  "cs \<noteq> [] \<Longrightarrow> donor_key toLowerCase (aggregate_of cs) = nameKey toLowerCase (hd cs)"
  by (simp add: donor_key_def aggregate_of_def nameKey_def)

lemma group_member:
  assumes "g \<in> set (groupDonationsByName toLowerCase ds)"
  shows "constituents toLowerCase ds (donor_key toLowerCase g) \<noteq> [] \<and> g = aggregate_of (constituents toLowerCase ds (donor_key toLowerCase g))"
proof -
  from assms obtain k where k: "k \<in> set (map (nameKey toLowerCase) ds)" and g: "g = aggregate_of (constituents toLowerCase ds k)"
    by (auto simp: groupDonationsByName_eq set_first_occurrences)
  from k obtain d where "d \<in> set ds" "nameKey toLowerCase d = k" by auto
  with hd_constituents [of d ds] have ne: "constituents toLowerCase ds k \<noteq> []"
    and "nameKey toLowerCase (hd (constituents toLowerCase ds k)) = k"
    by (auto simp: constituents_def filter_empty_conv)
  with g donor_key_aggregate_of [OF ne] show ?thesis by simp
qed


subsection \<open>The sample records\<close>

lemma name_keys:
  "nameKey toLowerCase_latin ram_500 = js ''ram_65a4f1c2e4b0a1b2c3d4e5f6''"
  "nameKey toLowerCase_latin ram_300 = js ''ram_65a4f1c2e4b0a1b2c3d4e5f6''"
  "nameKey toLowerCase_latin sita_pledge = js ''sita_65a4f1c2e4b0a1b2c3d4e5f7''"
  "nameKey toLowerCase_latin ram_pending = js ''ram_65a4f1c2e4b0a1b2c3d4e5f6''"
  by (simp_all add: nameKey_def ram_500_def ram_300_def sita_pledge_def ram_pending_def
      mandir_hall_def ganesh_chowk_def js_def
      trim_def toLowerCase_latin_def lowerUnit_def isWhiteSpace_def)

lemma wf_samples:
  "wf_donations [ram_500, sita_pledge, ram_pending, ram_300]"
  "wf_donations [ram_500, sita_pledge, ram_300]"
  by (simp_all add: wf_donations_def ram_500_def ram_300_def sita_pledge_def ram_pending_def
      mandir_hall_def ganesh_chowk_def js_def is_object_id_def is_hex_def)

lemma valid_samples: "valid_dates [ram_500, sita_pledge, ram_300]"
  by (simp add: valid_dates_def ram_500_def ram_300_def sita_pledge_def)

lemma sample_groups:
  "groupDonationsByName toLowerCase_latin [ram_500, sita_pledge, ram_300]
     = [aggregate_of [ram_500, ram_300], aggregate_of [sita_pledge]]"
  by (simp add: groupDonationsByName_eq name_keys constituents_def js_def)

lemma sample_constituents:
  "constituents toLowerCase_latin [ram_500, sita_pledge, ram_300] (donor_key toLowerCase_latin (aggregate_of [ram_500, ram_300]))
     = [ram_500, ram_300]"
  by (simp add: donor_key_aggregate_of name_keys constituents_def js_def)

subsection \<open>Search\<close>

lemma includes_str_append: "includes_str ys t \<Longrightarrow> includes_str (xs @ ys) t"
  by (induction xs) simp_all

lemma search_match_if:
  assumes "includes_str (toLowerCase (g_donorName d)) t
           \<or> includes_str (transliterateHindiToEnglish toLowerCase (g_donorName d)) t"
  shows "search_match toLowerCase t d"
  using assms
    includes_str_append [of "transliterateHindiToEnglish toLowerCase (g_donorName d)" t
                            "toLowerCase (g_donorName d) @ js '' ''"]
  by (auto simp: search_match_def Let_def)

subsection \<open>The server\<close>

lemma header_or_subadmin:
  "(header_or h (js ''admin'') = js ''subadmin'') = (h = Some (js ''subadmin''))"
  by (auto simp: header_or_def js_def split: option.splits)

lemma createLog_donations [simp]: "donations (createLog req a en i s) = donations s"
  and createLog_categories [simp]: "categories (createLog req a en i s) = categories s"
  by (simp_all add: createLog_def Let_def)


lemma cast_reorder: "castObjectId (js ''reorder'') = None"
  by (simp add: castObjectId_def js_def)






















subsection \<open>Dispatch\<close>

lemma route_of_reorder:
  assumes "req_method req = PUT" "req_path req = reorder_path"
  shows "route_of routes req = Some (PutCategory, [js ''reorder''])"
  using assms by (simp add: routes_def reorder_path_def js_def lower_ascii_def)

lemma put_category_reorder: "put_category (js ''reorder'') req s = (Failed 400 CastError, s)"
  by (simp add: put_category_def findCategoryById_def cast_reorder)

lemma dispatch_reorder:
  assumes "req_method req = PUT" "req_path req = reorder_path"
  shows "dispatch e req s = Some (Failed 400 CastError, s)"
  using route_of_reorder [OF assms] by (simp add: dispatch_def put_category_reorder)

lemma lower_ascii_nonempty: "lower_ascii seg = lower_ascii l \<Longrightarrow> l \<noteq> [] \<Longrightarrow> seg \<noteq> []"
  by (auto simp: lower_ascii_def)

lemma reorder_unreachable: "route_of routes req \<noteq> Some (ReorderCategories, ps)"
proof (cases "req_method req = PUT")
  case False
  then show ?thesis
    by (cases "req_method req") (simp_all add: routes_def split: option.splits)
next
  case True
  show ?thesis
  proof (cases "match_path [Lit (js ''api''), Lit (js ''categories''), Param] (req_path req)")
    case (Some a)
    with True show ?thesis by (simp add: routes_def split: option.splits)
  next
    case None
    have "match_path [Lit (js ''api''), Lit (js ''categories''), Lit (js ''reorder'')]
            (req_path req) = None"
    proof (cases "req_path req")
      case Nil then show ?thesis by simp
    next
      case p: (Cons a p1)
      show ?thesis
      proof (cases p1)
        case Nil with p show ?thesis by simp
      next
        case p1: (Cons b p2)
        show ?thesis
        proof (cases p2)
          case Nil with p p1 show ?thesis by simp
        next
          case (Cons c p3)
          have "js ''reorder'' \<noteq> []" by (simp add: js_def)
          with lower_ascii_nonempty [of c "js ''reorder''"]
          have "lower_ascii c = lower_ascii (js ''reorder'') \<Longrightarrow> c \<noteq> []" by simp
          with None Cons p p1 show ?thesis
            by (cases p3) (auto split: if_splits)
        qed
      qed
    qed
    with True show ?thesis by (simp add: routes_def split: option.splits)
  qed
qed

lemma moveCategoryUp_never_applied:
  "moveCategoryUp e cache ident s = None
   \<or> moveCategoryUp e cache ident s = Some (Failed 400 CastError, s)"
  by (simp add: moveCategoryUp_def dispatch_reorder apiPut_def split: option.splits)

lemma moveCategoryDown_never_applied:
  "moveCategoryDown e cache ident s = Inl TypeError
   \<or> moveCategoryDown e cache ident s = Inr None
   \<or> moveCategoryDown e cache ident s = Inr (Some (Failed 400 CastError, s))"
proof (cases "moveCategoryDown_orders cache ident")
  case (Inl err)
  then have "err = TypeError"
    by (auto simp: moveCategoryDown_orders_def Let_def split: if_splits)
  with Inl show ?thesis by (simp add: moveCategoryDown_def)
next
  case (Inr orders)
  then show ?thesis
    by (cases orders) (simp_all add: moveCategoryDown_def dispatch_reorder apiPut_def)
qed

subsection \<open>The exchange of order keys\<close>

text \<open>
  What the move functions ask for, and what the loop of the batch handler makes of it:
  on a list in ascending order with distinct order keys, the exchange of exactly two
  order keys, which a move down of the same category takes back.
\<close>

lemma findIndex_distinct:
  "distinct (map f xs) \<Longrightarrow> i < length xs \<Longrightarrow> findIndex (\<lambda>c. f c = f (xs ! i)) xs = int i"
proof (induction xs arbitrary: i)
  case Nil
  then show ?case by simp
next
  case (Cons x xs)
  show ?case
  proof (cases i)
    case 0
    then show ?thesis by simp
  next
    case (Suc j)
    with Cons.prems have j: "j < length xs" and d: "distinct (map f xs)" by simp_all
    from Cons.prems Suc j have "f x \<noteq> f (xs ! j)" by (auto simp: image_iff)
    with Cons.IH [OF d j] Suc show ?thesis by (simp add: Let_def)
  qed
qed

lemma map_update_distinct:
  assumes "distinct (map f xs)" "j < length xs"
  shows "map (\<lambda>c. if f c = f (xs ! j) then g c else c) xs = xs[j := g (xs ! j)]"
proof (rule nth_equalityI)
  show "length (map (\<lambda>c. if f c = f (xs ! j) then g c else c) xs) = length (xs[j := g (xs ! j)])"
    by simp
next
  fix k assume "k < length (map (\<lambda>c. if f c = f (xs ! j) then g c else c) xs)"
  then have k: "k < length xs" by simp
  have "f (xs ! k) = f (xs ! j) \<longleftrightarrow> k = j"
    using assms k nth_eq_iff_index_eq [of "map f xs" k j] by auto
  with k assms(2) show "map (\<lambda>c. if f c = f (xs ! j) then g c else c) xs ! k = xs[j := g (xs ! j)] ! k"
    by (auto simp: nth_list_update)
qed

lemma filter_singleton_distinct:
  "distinct (map f xs) \<Longrightarrow> k \<in> set xs \<Longrightarrow> filter (\<lambda>x. f k = f x) xs = [k]"
proof (induction xs)
  case Nil
  then show ?case by simp
next
  case (Cons x xs)
  show ?case
  proof (cases "k = x")
    case True
    with Cons.prems have "\<forall>y\<in>set xs. f x \<noteq> f y" by (auto simp: image_iff)
    then have "filter (\<lambda>y. f x = f y) xs = []" by (simp add: filter_empty_conv)
    with True show ?thesis by simp
  next
    case False
    with Cons.prems have "k \<in> set xs" "f k \<noteq> f x" by (auto simp: image_iff)
    with Cons show ?thesis by simp
  qed
qed


lemma map_update_same:
  "i < length xs \<Longrightarrow> f y = f (xs ! i) \<Longrightarrow> map f (xs[i := y]) = map f xs"
  by (rule nth_equalityI) (auto simp: nth_list_update)

lemma exchange_applied:
  fixes cats :: "category list"
  assumes ids: "distinct (map cat_id cats)"
    and cast: "\<forall>c\<in>set cats. castObjectId (cat_id c) = Some (cat_id c)"
    and srt: "sorted (map cat_order cats)" and dord: "distinct (map cat_order cats)"
    and i: "0 < i" "i < length cats"
  shows "moveCategoryUp_orders cats (cat_id (cats ! i))
           = Some [(cat_id (cats ! i), cat_order (cats ! (i - 1))),
                   (cat_id (cats ! (i - 1)), cat_order (cats ! i))]"
    and "apply_orders [(cat_id (cats ! i), cat_order (cats ! (i - 1))),
                       (cat_id (cats ! (i - 1)), cat_order (cats ! i))] cats
           = (None, exchange i cats)"
    and "moveCategoryDown_orders (exchange i cats) (cat_id (cats ! i))
           = Inr (Some [(cat_id (cats ! i), cat_order (cats ! i)),
                        (cat_id (cats ! (i - 1)), cat_order (cats ! (i - 1)))])"
    and "apply_orders [(cat_id (cats ! i), cat_order (cats ! i)),
                       (cat_id (cats ! (i - 1)), cat_order (cats ! (i - 1)))] (exchange i cats)
           = (None, cats)"
proof -
  define a where "a = cats ! (i - 1)"
  define b where "b = cats ! i"
  define cats' where
    "cats' = cats[i := b\<lparr>cat_order := cat_order a\<rparr>, i - 1 := a\<lparr>cat_order := cat_order b\<rparr>]"
  have ex: "exchange i cats = cats'" by (simp add: exchange_def cats'_def a_def b_def)
  let ?b' = "b\<lparr>cat_order := cat_order a\<rparr>" and ?a' = "a\<lparr>cat_order := cat_order b\<rparr>"
  have j: "i - 1 < length cats" "i - 1 \<noteq> i" using i by simp_all
  have mem: "a \<in> set cats" "b \<in> set cats" using i j by (simp_all add: a_def b_def)
  have ca: "castObjectId (cat_id a) = Some (cat_id a)"
    and cb: "castObjectId (cat_id b) = Some (cat_id b)"
    using cast mem by simp_all
  have sorted_id: "sort_key cat_order cats = cats" using srt by (rule sort_key_id_if_sorted)
  have idx: "findIndex (\<lambda>c. cat_id c = cat_id b) cats = int i"
    unfolding b_def by (rule findIndex_distinct [OF ids i(2)])
  have r1: "moveCategoryUp_orders cats (cat_id b)
           = Some [(cat_id b, cat_order a), (cat_id a, cat_order b)]"
    using i by (simp add: moveCategoryUp_orders_def sorted_id idx Let_def nat_diff_distrib)
       (simp add: a_def b_def)
  let ?c1 = "cats[i := ?b']"
  have step1: "map (\<lambda>c. if cat_id c = cat_id b then c\<lparr>cat_order := cat_order a\<rparr> else c) cats = ?c1"
    unfolding b_def using map_update_distinct [OF ids i(2), of "\<lambda>c. c\<lparr>cat_order := cat_order a\<rparr>"]
    by simp
  have ids1: "map cat_id ?c1 = map cat_id cats"
    using i by (intro map_update_same) (simp_all add: b_def)
  have nth1: "?c1 ! (i - 1) = a" using j by (simp add: a_def)
  have step2: "map (\<lambda>c. if cat_id c = cat_id a then c\<lparr>cat_order := cat_order b\<rparr> else c) ?c1 = cats'"
    using map_update_distinct [of cat_id ?c1 "i - 1" "\<lambda>c. c\<lparr>cat_order := cat_order b\<rparr>"]
      ids ids1 j nth1
    by (simp add: cats'_def)
  have r2: "apply_orders [(cat_id b, cat_order a), (cat_id a, cat_order b)] cats = (None, cats')"
    by (simp add: ca cb step1 step2)
  have len: "length cats' = length cats" by (simp add: cats'_def)
  have nth': "cats' ! i = ?b'" "cats' ! (i - 1) = ?a'"
    using i j by (simp_all add: cats'_def nth_list_update)
  have ids': "map cat_id cats' = map cat_id cats"
  proof -
    have "map cat_id cats' = map cat_id ?c1"
      unfolding cats'_def using j nth1 by (intro map_update_same) simp_all
    with ids1 show ?thesis by simp
  qed
  define s where "s = cats'[i - 1 := cats' ! i, i := cats' ! (i - 1)]"
  have len_s: "length s = length cats" by (simp add: s_def len)
  have mset_s: "mset s = mset cats'" unfolding s_def using i j len by (simp add: mset_swap)
  have nth_s: "s ! (i - 1) = ?b'" "s ! i = ?a'"
    unfolding s_def using i j len nth' by (simp_all add: nth_list_update)
  have ord_s: "map cat_order s = map cat_order cats"
  proof (rule nth_equalityI)
    show "length (map cat_order s) = length (map cat_order cats)" by (simp add: len_s)
  next
    fix k assume "k < length (map cat_order s)"
    then have k: "k < length cats" by (simp add: len_s)
    consider "k = i" | "k = i - 1" | "k \<noteq> i" "k \<noteq> i - 1" by blast
    then show "map cat_order s ! k = map cat_order cats ! k"
    proof cases
      case 1 with i len_s nth_s show ?thesis by (simp add: b_def)
    next
      case 2 with j len_s nth_s show ?thesis by (simp add: a_def)
    next
      case 3 with k len show ?thesis by (simp add: s_def cats'_def)
    qed
  qed
  have dord': "distinct (map cat_order cats')"
  proof -
    have "mset (map cat_order cats') = mset (map cat_order s)"
      using mset_s by (metis mset_map)
    then show ?thesis using dord ord_s by (metis mset_eq_imp_distinct_iff)
  qed
  have sorted_s: "sort_key cat_order cats' = s"
  proof (rule properties_for_sort_key)
    show "mset s = mset cats'" by (rule mset_s)
    show "sorted (map cat_order s)" using srt by (simp only: ord_s)
    fix k assume ks: "k \<in> set s"
    then have k: "k \<in> set cats'" using mset_s by (metis set_mset_mset)
    have "filter (\<lambda>x. cat_order k = cat_order x) cats' = [k]"
      using dord' k by (rule filter_singleton_distinct)
    moreover have "distinct (map cat_order s)" using dord by (simp only: ord_s)
    then have "filter (\<lambda>x. cat_order k = cat_order x) s = [k]"
      using ks by (rule filter_singleton_distinct)
    ultimately show "filter (\<lambda>x. cat_order k = cat_order x) s
                   = filter (\<lambda>x. cat_order k = cat_order x) cats'"
      by simp
  qed
  have ids_s: "distinct (map cat_id s)"
  proof -
    have "mset (map cat_id s) = mset (map cat_id cats')" using mset_s by (metis mset_map)
    then show ?thesis using ids ids' by (metis mset_eq_imp_distinct_iff)
  qed
  have "findIndex (\<lambda>c. cat_id c = cat_id (s ! (i - 1))) s = int (i - 1)"
    using j len_s by (intro findIndex_distinct [OF ids_s]) simp
  then have idx_s: "findIndex (\<lambda>c. cat_id c = cat_id b) s = int (i - 1)"
    by (simp only: nth_s) simp
  have pos: "nat (int (i - 1)) = i - 1" "nat (int (i - 1) + 1) = i"
    "\<not> int (length cats) - 1 \<le> int (i - 1)" "\<not> int (i - 1) < 0"
    using i by simp_all
  have r3: "moveCategoryDown_orders cats' (cat_id b)
           = Inr (Some [(cat_id b, cat_order b), (cat_id a, cat_order a)])"
    by (simp only: moveCategoryDown_orders_def sorted_s idx_s Let_def len_s pos if_False nth_s)
       simp
  have back1: "map (\<lambda>c. if cat_id c = cat_id b then c\<lparr>cat_order := cat_order b\<rparr> else c) cats'
        = cats'[i := b]"
    using map_update_distinct [of cat_id cats' i "\<lambda>c. c\<lparr>cat_order := cat_order b\<rparr>"]
      ids ids' i len nth'
    by simp
  have nth_b: "cats'[i := b] ! (i - 1) = ?a'" using j len nth' by simp
  have idsb: "map cat_id (cats'[i := b]) = map cat_id cats"
  proof -
    have "map cat_id (cats'[i := b]) = map cat_id cats'"
      using i len nth' by (intro map_update_same) simp_all
    with ids' show ?thesis by simp
  qed
  have back2: "map (\<lambda>c. if cat_id c = cat_id a then c\<lparr>cat_order := cat_order a\<rparr> else c)
                 (cats'[i := b]) = cats'[i := b, i - 1 := a]"
    using map_update_distinct [of cat_id "cats'[i := b]" "i - 1" "\<lambda>c. c\<lparr>cat_order := cat_order a\<rparr>"]
      ids idsb j len nth_b
    by simp
  have restored: "cats'[i := b, i - 1 := a] = cats"
  proof (rule nth_equalityI)
    show "length (cats'[i := b, i - 1 := a]) = length cats" by (simp add: len)
  next
    fix k assume "k < length (cats'[i := b, i - 1 := a])"
    then have k: "k < length cats" by (simp add: len)
    consider "k = i" | "k = i - 1" | "k \<noteq> i" "k \<noteq> i - 1" by blast
    then show "cats'[i := b, i - 1 := a] ! k = cats ! k"
    proof cases
      case 1 with i j len show ?thesis by (simp add: b_def)
    next
      case 2 with j len show ?thesis by (simp add: a_def)
    next
      case 3 with k len show ?thesis by (simp add: cats'_def)
    qed
  qed
  have r4: "apply_orders [(cat_id b, cat_order b), (cat_id a, cat_order a)] cats' = (None, cats)"
    using restored by (simp add: ca cb back1 back2)
  from r1 show "moveCategoryUp_orders cats (cat_id (cats ! i))
           = Some [(cat_id (cats ! i), cat_order (cats ! (i - 1))),
                   (cat_id (cats ! (i - 1)), cat_order (cats ! i))]"
    unfolding a_def b_def .
  from r2 show "apply_orders [(cat_id (cats ! i), cat_order (cats ! (i - 1))),
                       (cat_id (cats ! (i - 1)), cat_order (cats ! i))] cats
           = (None, exchange i cats)"
    unfolding ex unfolding a_def b_def .
  from r3 show "moveCategoryDown_orders (exchange i cats) (cat_id (cats ! i))
           = Inr (Some [(cat_id (cats ! i), cat_order (cats ! i)),
                        (cat_id (cats ! (i - 1)), cat_order (cats ! (i - 1)))])"
    unfolding ex unfolding a_def b_def .
  from r4 show "apply_orders [(cat_id (cats ! i), cat_order (cats ! i)),
                       (cat_id (cats ! (i - 1)), cat_order (cats ! (i - 1)))] (exchange i cats)
           = (None, cats)"
    unfolding ex unfolding a_def b_def .
qed

lemma move_up_first_is_no_request:
  "moveCategoryUp_orders (c # cats) (cat_id (hd (sort_key cat_order (c # cats)))) = None"
proof -
  obtain x xs where "sort_key cat_order (c # cats) = x # xs"
    by (cases "sort_key cat_order (c # cats)") (auto dest: arg_cong [where f = length])
  then show ?thesis by (simp add: moveCategoryUp_orders_def Let_def)
qed

lemma move_down_last_is_no_request:
  assumes "distinct (map cat_id cats)" "cats \<noteq> []"
  shows "moveCategoryDown_orders cats (cat_id (last (sort_key cat_order cats))) = Inr None"
proof -
  let ?s = "sort_key cat_order cats"
  have ne: "?s \<noteq> []" using assms(2) by (metis length_sort length_0_conv)
  have d: "distinct (map cat_id ?s)"
  proof -
    have "mset (map cat_id ?s) = mset (map cat_id cats)" by (metis mset_map mset_sort)
    then show ?thesis using assms(1) by (metis mset_eq_imp_distinct_iff)
  qed
  have "last ?s = ?s ! (length ?s - 1)" using ne by (rule last_conv_nth)
  then have "findIndex (\<lambda>c. cat_id c = cat_id (last ?s)) ?s = int (length ?s - 1)"
    using findIndex_distinct [OF d, of "length ?s - 1"] ne assms(2) by simp
  then show ?thesis by (simp add: moveCategoryDown_orders_def Let_def)
qed


subsection \<open>Totals of whole amounts\<close>

lemma sum_list_filter_le:
  "(\<And>x. 0 \<le> (f x :: int)) \<Longrightarrow> sum_list (map f (filter P xs)) \<le> sum_list (map f xs)"
  by (induction xs) (auto intro: add_increasing)

lemma safe_amounts_filter: "safe_amounts ds \<Longrightarrow> safe_amounts (filter P ds)"
  using sum_list_filter_le [of "\<lambda>d. \<bar>int_of (amount_or_0 d)\<bar>" P ds]
  by (auto simp: safe_amounts_def list_all_iff)

lemma safe_sum_exact:
  assumes "safe_amounts cs"
  shows "foldl js_plus (Finite 0) (map amount_or_0 cs)
         = Finite (of_int (sum_list (map (\<lambda>d. int_of (amount_or_0 d)) cs)))"
proof -
  have "list_all is_integer (map amount_or_0 cs)"
    using assms by (simp add: safe_amounts_def list_all_iff)
  moreover have "\<bar>0 :: int\<bar> + sum_list (map (\<lambda>x. \<bar>int_of x\<bar>) (map amount_or_0 cs)) < 2 ^ 53"
    using assms by (simp add: safe_amounts_def comp_def)
  ultimately have "foldl js_plus (Finite (of_int 0)) (map amount_or_0 cs)
      = Finite (of_int (0 + sum_list (map int_of (map amount_or_0 cs))))"
    by (rule foldl_js_plus_exact)
  then show ?thesis by (simp add: comp_def)
qed

lemma total_exact:
  assumes "safe_amounts cs"
  shows "g_amount (aggregate_of cs)
         = Finite (of_int (sum_list (map (\<lambda>d. int_of (amount_or_0 d)) cs)))"
  using safe_sum_exact [OF assms] by (simp add: aggregate_of_def)

lemma sum_list_abs_le:
  "\<bar>sum_list (map (f :: 'a \<Rightarrow> int) xs)\<bar> \<le> sum_list (map (\<lambda>x. \<bar>f x\<bar>) xs)"
  by (induction xs) auto

lemma sum_list_map_mono:
  "(\<And>x. x \<in> set xs \<Longrightarrow> f x \<le> (g x :: int)) \<Longrightarrow> sum_list (map f xs) \<le> sum_list (map g xs)"
  by (induction xs) (auto intro: add_mono)

lemma safe_samples:
  "safe_amounts (filter (\<lambda>d. status d = Approved) [ram_500, sita_pledge, ram_pending, ram_300])"
  by (simp add: safe_amounts_def ram_500_def ram_300_def sita_pledge_def ram_pending_def
      amount_or_0_def falsy_number_def)

lemma fl_samples:
  "fl 1 = Finite 1" "fl 2 = Finite 2" "fl 9007199254740993 = Finite 9007199254740992"
  "fl 9007199254740994 = Finite 9007199254740994"
  by code_simp+

lemma rounding_keys:
  "nameKey toLowerCase_latin sita_1 = js ''sita_65a4f1c2e4b0a1b2c3d4e5f6''"
  "nameKey toLowerCase_latin ram_1 = js ''ram_65a4f1c2e4b0a1b2c3d4e5f6''"
  "nameKey toLowerCase_latin ram_big = js ''ram_65a4f1c2e4b0a1b2c3d4e5f6''"
  by (simp_all add: nameKey_def sita_1_def ram_1_def ram_big_def mandir_hall_def js_def
      trim_def toLowerCase_latin_def lowerUnit_def isWhiteSpace_def)

subsection \<open>Trimmed names and keys\<close>

lemma trim_surrounded:
  assumes "list_all isWhiteSpace w1" and "list_all isWhiteSpace w2"
    and "s = [] \<or> (\<not> isWhiteSpace (hd s) \<and> \<not> isWhiteSpace (last s))"
  shows "trim (w1 @ s @ w2) = s"
proof (cases "s = []")
  case True
  have "dropWhile isWhiteSpace (w1 @ w2) = []"
    using assms(1,2) by (auto simp: dropWhile_eq_Nil_conv list_all_iff)
  then have "rev (dropWhile isWhiteSpace (rev (dropWhile isWhiteSpace (w1 @ w2)))) = []"
    by (simp only: rev.simps dropWhile.simps)
  then show ?thesis unfolding trim_def True append_Nil .
next
  case False
  with assms(3) have hd: "\<not> isWhiteSpace (hd s)" and last: "\<not> isWhiteSpace (last s)"
    by simp_all
  have "dropWhile isWhiteSpace (w1 @ s @ w2) = dropWhile isWhiteSpace (s @ w2)"
    using assms(1) by (simp add: dropWhile_append2 list_all_iff)
  also have "\<dots> = s @ w2"
    using False hd by (cases s) simp_all
  finally have front: "dropWhile isWhiteSpace (w1 @ s @ w2) = s @ w2" .
  have "dropWhile isWhiteSpace (rev w2 @ rev s) = dropWhile isWhiteSpace (rev s)"
    using assms(2) by (intro dropWhile_append2) (simp add: list_all_iff)
  then have "dropWhile isWhiteSpace (rev (s @ w2)) = dropWhile isWhiteSpace (rev s)"
    by (simp only: rev_append)
  also have "\<dots> = rev s"
    using False last by (cases "rev s") (simp_all add: last_rev [symmetric] del: last_rev)
  finally show ?thesis by (simp add: trim_def front)
qed

lemma category_of_determines_key:
  assumes "wf_ref r1" "wf_ref r2" "category_of r1 = category_of r2"
  shows "category_key r1 = category_key r2"
  using wf_ref_cases [OF assms(1)] wf_ref_cases [OF assms(2)] assms(3) by auto

lemma nameKey_eq_iff:
  assumes "wf_ref (categoryId d)" "wf_ref (categoryId d')"
  shows "(nameKey toLowerCase d = nameKey toLowerCase d')
         = (toLowerCase (trim (donorName d)) = toLowerCase (trim (donorName d'))
            \<and> category_of (categoryId d) = category_of (categoryId d'))"
proof
  assume eq: "nameKey toLowerCase d = nameKey toLowerCase d'"
  then have cat: "category_of (categoryId d) = category_of (categoryId d')"
    using assms by (intro same_key_same_category) simp_all
  then have "category_key (categoryId d) = category_key (categoryId d')"
    using assms by (intro category_of_determines_key)
  with eq have "toLowerCase (trim (donorName d)) = toLowerCase (trim (donorName d'))"
    by (simp add: nameKey_def)
  with cat show "toLowerCase (trim (donorName d)) = toLowerCase (trim (donorName d'))
            \<and> category_of (categoryId d) = category_of (categoryId d')" by simp
next
  assume "toLowerCase (trim (donorName d)) = toLowerCase (trim (donorName d'))
            \<and> category_of (categoryId d) = category_of (categoryId d')"
  then show "nameKey toLowerCase d = nameKey toLowerCase d'"
    using category_of_determines_key [OF assms] by (simp add: nameKey_def)
qed

lemma js_Ram_ends: "\<not> isWhiteSpace (hd (js ''Ram'')) \<and> \<not> isWhiteSpace (last (js ''Ram''))"
  "\<not> isWhiteSpace (hd (js ''ram'')) \<and> \<not> isWhiteSpace (last (js ''ram''))"
  by (simp_all add: js_def isWhiteSpace_def)

lemma spaced_samples:
  "wf_donations [ram_500, sita_pledge, ram_spaced, ram_300]"
  "list_all isWhiteSpace [0x20, 0x09]" "list_all isWhiteSpace [0xA0, 0x0A]"
  "js ''RAM'' = [] \<or> (\<not> isWhiteSpace (hd (js ''RAM'')) \<and> \<not> isWhiteSpace (last (js ''RAM'')))"
  "toLowerCase_latin (js ''Ram'') = toLowerCase_latin (js ''ram'')"
  by (simp_all add: wf_donations_def ram_500_def ram_300_def sita_pledge_def ram_spaced_def
      mandir_hall_def ganesh_chowk_def js_def is_object_id_def is_hex_def isWhiteSpace_def
      toLowerCase_latin_def lowerUnit_def)

lemma spaced_key:
  "nameKey toLowerCase_latin ram_spaced = js ''ram_65a4f1c2e4b0a1b2c3d4e5f6''"
  "trim (donorName ram_spaced) = js ''RAM''"
  by (simp_all add: nameKey_def ram_spaced_def mandir_hall_def js_def
      trim_def toLowerCase_latin_def lowerUnit_def isWhiteSpace_def)

subsection \<open>New donations\<close>

text \<open>
  What \<open>app.post('/api/donations')\<close> does with the header \<open>x-user-type\<close>: under
  \<open>subadmin\<close> a request with a falsy amount or date is rejected with the message that
  names both and nothing is stored, and a request that succeeds stores one new record
  with status pending; under any other value a request that succeeds stores one new
  record with status approved; a request that does not succeed leaves the server as
  it was.
\<close>

lemma post_donation_by_header:
  "(x_user_type req = Some (js ''subadmin'')
      \<and> (falsy_amount (b_amount (req_body req)) \<or> falsy_date (b_date (req_body req)))
     \<longrightarrow> post_donation e req s
           = (Rejected 400 (js ''Amount and Date are required for Sub-admins''), s))
   \<and> (x_user_type req = Some (js ''subadmin'') \<and> post_donation e req s = (Success c, s')
     \<longrightarrow> (\<exists>doc. donations s' = donations s @ [doc] \<and> doc_status doc = Pending)
         \<and> \<not> falsy_amount (b_amount (req_body req)) \<and> \<not> falsy_date (b_date (req_body req)))
   \<and> (x_user_type req \<noteq> Some (js ''subadmin'') \<and> post_donation e req s = (Success c, s')
     \<longrightarrow> (\<exists>doc. donations s' = donations s @ [doc] \<and> doc_status doc = Approved))
   \<and> (post_donation e req s = (r, s') \<and> (\<forall>c. r \<noteq> Success c) \<longrightarrow> s' = s)"
proof (intro conjI impI)
  assume "x_user_type req = Some (js ''subadmin'')
      \<and> (falsy_amount (b_amount (req_body req)) \<or> falsy_date (b_date (req_body req)))"
  then show "post_donation e req s
           = (Rejected 400 (js ''Amount and Date are required for Sub-admins''), s)"
    by (auto simp: post_donation_def header_or_subadmin)
next
  assume a: "x_user_type req = Some (js ''subadmin'') \<and> post_donation e req s = (Success c, s')"
  then show "\<exists>doc. donations s' = donations s @ [doc] \<and> doc_status doc = Pending"
    by (auto simp: post_donation_def header_or_subadmin Let_def new_donation_def
        split: if_splits sum.splits option.splits)
  from a show "\<not> falsy_amount (b_amount (req_body req))" "\<not> falsy_date (b_date (req_body req))"
    by (auto simp: post_donation_def header_or_subadmin Let_def split: if_splits)
next
  assume "x_user_type req \<noteq> Some (js ''subadmin'') \<and> post_donation e req s = (Success c, s')"
  then show "\<exists>doc. donations s' = donations s @ [doc] \<and> doc_status doc = Approved"
    by (auto simp: post_donation_def header_or_subadmin Let_def new_donation_def
        split: if_splits sum.splits option.splits)
next
  assume "post_donation e req s = (r, s') \<and> (\<forall>c. r \<noteq> Success c)"
  then show "s' = s"
    by (auto simp: post_donation_def Let_def split: if_splits sum.splits)
qed

lemma parseInt_100: "parseInt (js ''100'') = Finite 100"
  by code_simp

lemma cast_chowk: "castObjectId ganesh_chowk = Some ganesh_chowk"
  by (simp add: castObjectId_def ganesh_chowk_def js_def is_hex_digit_def is_hex_def
      lower_ascii_def)

lemma sita_data:
  "donationData_of_form sita_form
     = empty_body\<lparr>b_donorName := Some (js ''Sita''), b_amount := Val (Finite 100),
                  b_date := Val (DateText (JsDate [] None)), b_categoryId := Some ganesh_chowk,
                  b_notes := Some []\<rparr>"
  "donationData_of_form sita_form_dated
     = empty_body\<lparr>b_donorName := Some (js ''Sita''), b_amount := Val (Finite 100),
                  b_date := Val (DateText (JsDate (js ''2024-02-01'') (Some 1706745600000))),
                  b_categoryId := Some ganesh_chowk, b_notes := Some []\<rparr>"
  by (simp_all add: donationData_of_form_def sita_form_def sita_form_dated_def parseInt_100
      json_number_def, simp_all add: trim_def js_def isWhiteSpace_def)

lemma route_of_post:
  "route_of routes (apiPost [js ''api'', js ''donations''] b) = Some (PostDonation, [])"
  "route_of routes (acting_as u (apiPost [js ''api'', js ''donations''] b))
     = Some (PostDonation, [])"
  by (simp_all add: routes_def apiPost_def acting_as_def js_def lower_ascii_def)

lemma dispatch_post:
  "dispatch e (apiPost [js ''api'', js ''donations''] b) s
     = Some (post_donation e (apiPost [js ''api'', js ''donations''] b) s)"
  "dispatch e (acting_as u (apiPost [js ''api'', js ''donations''] b)) s
     = Some (post_donation e (acting_as u (apiPost [js ''api'', js ''donations''] b)) s)"
  by (simp_all add: dispatch_def route_of_post)

section \<open>The claims\<close>

text \<open>
  C1, as the code has it. Conservation law for amounts in whole rupees. For every
  list of donation records as the server delivers them, whose approved records have
  whole amounts with absolute values adding up to less than \<open>2^53\<close>: after restricting
  to the approved records and aggregating, the total of every donor object of a
  category is a whole number, and these totals add up to the amounts of the approved
  records of that category, a missing amount counting as 0. The two sums are equal as
  integers, and each of them, computed with the additions of JavaScript, is that
  integer. The category \<open>c\<close> is an identity, or \<open>None\<close> for the records whose
  reference does not resolve.
\<close>

theorem conservation_law_whole_amounts:
  assumes "wf_donations ds" and "safe_amounts (filter (\<lambda>d. status d = Approved) ds)"
  shows "list_all (\<lambda>g. is_integer (g_amount g))
           (filter (\<lambda>g. category_of (g_categoryId g) = c)
              (groupDonationsByName toLowerCase (filter (\<lambda>d. status d = Approved) ds)))
       \<and> sum_list (map (\<lambda>g. int_of (g_amount g))
           (filter (\<lambda>g. category_of (g_categoryId g) = c)
              (groupDonationsByName toLowerCase (filter (\<lambda>d. status d = Approved) ds))))
         = sum_list (map (\<lambda>d. int_of (amount_or_0 d))
             (filter (\<lambda>d. status d = Approved \<and> category_of (categoryId d) = c) ds))
       \<and> foldl js_plus (Finite 0) (map g_amount
           (filter (\<lambda>g. category_of (g_categoryId g) = c)
              (groupDonationsByName toLowerCase (filter (\<lambda>d. status d = Approved) ds))))
         = Finite (of_int (sum_list (map (\<lambda>d. int_of (amount_or_0 d))
             (filter (\<lambda>d. status d = Approved \<and> category_of (categoryId d) = c) ds))))
       \<and> foldl js_plus (Finite 0) (map amount_or_0
           (filter (\<lambda>d. status d = Approved \<and> category_of (categoryId d) = c) ds))
         = Finite (of_int (sum_list (map (\<lambda>d. int_of (amount_or_0 d))
             (filter (\<lambda>d. status d = Approved \<and> category_of (categoryId d) = c) ds))))"
proof -
  define A where "A = filter (\<lambda>d. status d = Approved) ds"
  define f where "f = (\<lambda>d. int_of (amount_or_0 d))"
  define key where "key = nameKey toLowerCase"
  define Q where "Q = (\<lambda>k. category_of (categoryId (hd (constituents toLowerCase A k))) = c)"
  define ks where "ks = filter Q (first_occurrences (map key A))"
  define S where "S = (\<lambda>k. sum_list (map f (filter (\<lambda>d. key d = k) A)))"
  define records where
    "records = filter (\<lambda>d. status d = Approved \<and> category_of (categoryId d) = c) ds"
  define groups where
    "groups = filter (\<lambda>g. category_of (g_categoryId g) = c) (groupDonationsByName toLowerCase A)"
  have safe: "safe_amounts A" using assms(2) by (simp only: A_def)
  have wf: "wf_ref (categoryId d)" if "d \<in> set A" for d
    using assms(1) that by (simp add: wf_donations_def list_all_iff A_def)
  have records: "records = filter (\<lambda>d. Q (key d)) A"
  proof -
    have "filter (\<lambda>d. Q (key d)) A = filter (\<lambda>d. category_of (categoryId d) = c) A"
    proof (rule filter_cong [OF refl])
      fix d assume d: "d \<in> set A"
      from hd_constituents [OF d, of toLowerCase] wf [OF d] wf
      have "category_of (categoryId (hd (constituents toLowerCase A (nameKey toLowerCase d))))
            = category_of (categoryId d)"
        by (intro same_key_same_category) auto
      then show "Q (key d) = (category_of (categoryId d) = c)" by (simp add: Q_def key_def)
    qed
    then show ?thesis by (simp add: records_def A_def conj_commute)
  qed
  have groups: "groups = map (\<lambda>k. aggregate_of (constituents toLowerCase A k)) ks"
    by (simp only: groups_def ks_def Q_def key_def groupDonationsByName_eq filter_map comp_def
        aggregate_of_def donor.simps)
  have total: "g_amount (aggregate_of (constituents toLowerCase A k)) = Finite (of_int (S k))" for k
    using total_exact [OF safe_amounts_filter [OF safe], of "\<lambda>d. key d = k"]
    by (simp add: constituents_def S_def f_def key_def)
  have amounts: "map g_amount groups = map (\<lambda>k. Finite (of_int (S k))) ks"
    by (simp add: groups total comp_def)
  have sumS: "sum_list (map S ks) = sum_list (map f records)"
    unfolding S_def ks_def records by (rule regroup)
  have "sum_list (map (\<lambda>k. \<bar>S k\<bar>) ks)
        \<le> sum_list (map (\<lambda>k. sum_list (map (\<lambda>d. \<bar>f d\<bar>) (filter (\<lambda>d. key d = k) A))) ks)"
    by (rule sum_list_map_mono) (simp add: S_def sum_list_abs_le)
  also have "\<dots> = sum_list (map (\<lambda>d. \<bar>f d\<bar>) (filter (\<lambda>d. Q (key d)) A))"
    unfolding ks_def by (rule regroup)
  also have "\<dots> \<le> sum_list (map (\<lambda>d. \<bar>f d\<bar>) A)"
    by (rule sum_list_filter_le) simp
  also have "\<dots> < 2 ^ 53" using safe by (simp add: safe_amounts_def f_def)
  finally have bound: "\<bar>0 :: int\<bar> + sum_list (map (\<lambda>x. \<bar>int_of x\<bar>) (map g_amount groups)) < 2 ^ 53"
    by (simp add: amounts comp_def)
  have ints: "list_all is_integer (map g_amount groups)"
    by (simp add: amounts list_all_iff)
  have "foldl js_plus (Finite (of_int 0)) (map g_amount groups)
        = Finite (of_int (0 + sum_list (map int_of (map g_amount groups))))"
    using ints bound by (rule foldl_js_plus_exact)
  then have fold: "foldl js_plus (Finite 0) (map g_amount groups)
        = Finite (of_int (sum_list (map S ks)))"
    by (simp add: amounts comp_def)
  have c1: "list_all (\<lambda>g. is_integer (g_amount g)) groups"
    using ints by (simp add: list_all_iff)
  have "map (\<lambda>g. int_of (g_amount g)) groups = map int_of (map g_amount groups)"
    by (simp add: comp_def)
  also have "\<dots> = map S ks" by (simp add: amounts comp_def)
  finally have c2: "sum_list (map (\<lambda>g. int_of (g_amount g)) groups) = sum_list (map f records)"
    using sumS by simp
  have c3: "foldl js_plus (Finite 0) (map g_amount groups)
            = Finite (of_int (sum_list (map f records)))"
    using fold sumS by simp
  have "safe_amounts records"
    unfolding records by (rule safe_amounts_filter [OF safe])
  then have c4: "foldl js_plus (Finite 0) (map amount_or_0 records)
            = Finite (of_int (sum_list (map f records)))"
    unfolding f_def by (rule safe_sum_exact)
  from c1 c2 c3 c4 show ?thesis
    unfolding groups_def records_def A_def f_def by (intro conjI)
qed

theorem conservation_law_whole_amounts_witness:
  "wf_donations [ram_500, sita_pledge, ram_pending, ram_300]
   \<and> safe_amounts (filter (\<lambda>d. status d = Approved) [ram_500, sita_pledge, ram_pending, ram_300])
   \<and> sum_list (map (\<lambda>g. int_of (g_amount g))
        (filter (\<lambda>g. category_of (g_categoryId g) = Some mandir_hall)
           (groupDonationsByName toLowerCase_latin
              (filter (\<lambda>d. status d = Approved) [ram_500, sita_pledge, ram_pending, ram_300]))))
     = 800
   \<and> foldl js_plus (Finite 0) (map g_amount
        (filter (\<lambda>g. category_of (g_categoryId g) = Some mandir_hall)
           (groupDonationsByName toLowerCase_latin
              (filter (\<lambda>d. status d = Approved) [ram_500, sita_pledge, ram_pending, ram_300]))))
     = Finite 800"
proof -
  have rhs: "sum_list (map (\<lambda>d. int_of (amount_or_0 d))
           (filter (\<lambda>d. status d = Approved \<and> category_of (categoryId d) = Some mandir_hall)
              [ram_500, sita_pledge, ram_pending, ram_300])) = 800"
    by (simp add: ram_500_def ram_300_def sita_pledge_def ram_pending_def amount_or_0_def
        falsy_number_def mandir_hall_def ganesh_chowk_def js_def)
  show ?thesis
    using wf_samples(1) safe_samples
      conservation_law_whole_amounts [OF wf_samples(1) safe_samples,
        where toLowerCase = toLowerCase_latin and c = "Some mandir_hall"]
    unfolding rhs by simp
qed

text \<open>
  Without the bound the totals do not add up to the amounts. Of three approved
  records of one category, Sita gives 1 rupee and Ram gives 1 rupee and then \<open>2^53\<close>
  rupees: the total of Ram is \<open>2^53\<close>, since \<open>1 + 2^53\<close> is rounded, so the totals of the
  category are 1 and \<open>2^53\<close>, which add up to \<open>2^53 + 1\<close> (to \<open>2^53\<close> with the addition of
  JavaScript), while the amounts add up to \<open>2^53 + 2\<close>, with either addition.
\<close>

theorem conservation_law_rounding_counterexample:
  "wf_donations [sita_1, ram_1, ram_big]
   \<and> map g_amount
        (filter (\<lambda>g. category_of (g_categoryId g) = Some mandir_hall)
           (groupDonationsByName toLowerCase_latin
              (filter (\<lambda>d. status d = Approved) [sita_1, ram_1, ram_big])))
     = [Finite 1, Finite 9007199254740992]
   \<and> map amount_or_0
        (filter (\<lambda>d. status d = Approved \<and> category_of (categoryId d) = Some mandir_hall)
           [sita_1, ram_1, ram_big])
     = [Finite 1, Finite 1, Finite 9007199254740992]
   \<and> foldl js_plus (Finite 0) [Finite 1, Finite 9007199254740992] = Finite 9007199254740992
   \<and> foldl js_plus (Finite 0) [Finite 1, Finite 1, Finite 9007199254740992]
     = Finite 9007199254740994
   \<and> sum_list (map int_of [Finite 1, Finite 9007199254740992]) = 9007199254740993
   \<and> sum_list (map int_of [Finite 1, Finite 1, Finite 9007199254740992]) = 9007199254740994"
proof -
  have "wf_donations [sita_1, ram_1, ram_big]"
    by (simp add: wf_donations_def sita_1_def ram_1_def ram_big_def mandir_hall_def js_def
        is_object_id_def is_hex_def)
  moreover have approved: "filter (\<lambda>d. status d = Approved) [sita_1, ram_1, ram_big]
      = [sita_1, ram_1, ram_big]"
    by (simp add: sita_1_def ram_1_def ram_big_def)
  have groups: "groupDonationsByName toLowerCase_latin [sita_1, ram_1, ram_big]
      = [aggregate_of [sita_1], aggregate_of [ram_1, ram_big]]"
    by (simp add: groupDonationsByName_eq rounding_keys constituents_def js_def)
  have "map g_amount
        (filter (\<lambda>g. category_of (g_categoryId g) = Some mandir_hall)
           (groupDonationsByName toLowerCase_latin
              (filter (\<lambda>d. status d = Approved) [sita_1, ram_1, ram_big])))
     = [Finite 1, Finite 9007199254740992]"
    unfolding approved groups
    by (simp add: aggregate_of_def amount_or_0_def falsy_number_def sita_1_def ram_1_def
        ram_big_def fl_samples)
  moreover have "map amount_or_0
        (filter (\<lambda>d. status d = Approved \<and> category_of (categoryId d) = Some mandir_hall)
           [sita_1, ram_1, ram_big])
     = [Finite 1, Finite 1, Finite 9007199254740992]"
    by (simp add: amount_or_0_def falsy_number_def sita_1_def ram_1_def ram_big_def)
  moreover have "foldl js_plus (Finite 0) [Finite 1, Finite 9007199254740992]
      = Finite 9007199254740992"
    "foldl js_plus (Finite 0) [Finite 1, Finite 1, Finite 9007199254740992]
      = Finite 9007199254740994"
    by (simp_all add: fl_samples)
  moreover have "sum_list (map int_of [Finite 1, Finite 9007199254740992]) = 9007199254740993"
    "sum_list (map int_of [Finite 1, Finite 1, Finite 9007199254740992]) = 9007199254740994"
    by simp_all
  ultimately show ?thesis by (simp only: simp_thms)
qed

text \<open>
  C4. The donor aggregator groups the records by the composite key: the trimmed,
  lowercased donor name, an underscore, and the category identity, with
  \<open>unknown\<close> for a reference that does not resolve. For every function
  \<open>toLowerCase\<close>: the result lists, in the order in which the keys first occur, one
  donor object for each key, built from the records of that key in their original
  order; two records have the same key exactly when their trimmed, lowercased names
  are equal and their category identities are equal; and the white space around a
  name does not enter the key. In particular, when \<open>toLowerCase\<close> takes Ram and ram to
  the same text, a record of Ram (with any white space around the name) with amount
  500 and a record of ram with amount 300 in the same category give exactly one donor
  object, with name Ram, total 800 and a history of length 2.
\<close>

theorem groups_by_composite_key:
  assumes "wf_donations ds"
    and "list_all isWhiteSpace w1" and "list_all isWhiteSpace w2"
    and "s = [] \<or> (\<not> isWhiteSpace (hd s) \<and> \<not> isWhiteSpace (last s))"
    and "toLowerCase (js ''Ram'') = toLowerCase (js ''ram'')"
  shows "groupDonationsByName toLowerCase ds
           = map (\<lambda>k. aggregate_of (constituents toLowerCase ds k))
               (first_occurrences (map (nameKey toLowerCase) ds))
       \<and> (\<forall>d\<in>set ds. \<forall>d'\<in>set ds.
            (nameKey toLowerCase d = nameKey toLowerCase d')
            = (toLowerCase (trim (donorName d)) = toLowerCase (trim (donorName d'))
               \<and> category_of (categoryId d) = category_of (categoryId d')))
       \<and> list_all (\<lambda>d. nameKey toLowerCase d = toLowerCase (trim (donorName d)) @ js ''_''
                          @ (case category_of (categoryId d) of
                               None \<Rightarrow> js ''unknown'' | Some i \<Rightarrow> i)) ds
       \<and> nameKey toLowerCase (d\<lparr>donorName := w1 @ s @ w2\<rparr>)
           = toLowerCase s @ js ''_'' @ category_key (categoryId d)
       \<and> (\<exists>g. groupDonationsByName toLowerCase
                  [d1\<lparr>donorName := w1 @ js ''Ram'' @ w2, amount := Some (Finite 500),
                      categoryId := r\<rparr>,
                   d2\<lparr>donorName := js ''ram'', amount := Some (Finite 300),
                      categoryId := r\<rparr>] = [g]
              \<and> g_donorName g = js ''Ram'' \<and> g_amount g = Finite 800
              \<and> length (g_history g) = 2)"
proof (intro conjI)
  show "groupDonationsByName toLowerCase ds
          = map (\<lambda>k. aggregate_of (constituents toLowerCase ds k))
              (first_occurrences (map (nameKey toLowerCase) ds))"
    by (rule groupDonationsByName_eq)
next
  have wf: "wf_ref (categoryId d)" if "d \<in> set ds" for d
    using assms(1) that by (simp add: wf_donations_def list_all_iff)
  show "\<forall>d\<in>set ds. \<forall>d'\<in>set ds.
            (nameKey toLowerCase d = nameKey toLowerCase d')
            = (toLowerCase (trim (donorName d)) = toLowerCase (trim (donorName d'))
               \<and> category_of (categoryId d) = category_of (categoryId d'))"
    using wf by (intro ballI nameKey_eq_iff)
next
  have "nameKey toLowerCase d = toLowerCase (trim (donorName d)) @ js ''_''
          @ (case category_of (categoryId d) of None \<Rightarrow> js ''unknown'' | Some i \<Rightarrow> i)"
    if "d \<in> set ds" for d
  proof -
    from assms(1) that have "wf_ref (categoryId d)" by (simp add: wf_donations_def list_all_iff)
    from wf_ref_cases [OF this] show ?thesis by (auto simp: nameKey_def)
  qed
  then show "list_all (\<lambda>d. nameKey toLowerCase d = toLowerCase (trim (donorName d)) @ js ''_''
                          @ (case category_of (categoryId d) of
                               None \<Rightarrow> js ''unknown'' | Some i \<Rightarrow> i)) ds"
    by (simp add: list_all_iff)
next
  show "nameKey toLowerCase (d\<lparr>donorName := w1 @ s @ w2\<rparr>)
           = toLowerCase s @ js ''_'' @ category_key (categoryId d)"
    using trim_surrounded [OF assms(2,3,4)] by (simp add: nameKey_def)
next
  let ?a = "d1\<lparr>donorName := w1 @ js ''Ram'' @ w2, amount := Some (Finite 500), categoryId := r\<rparr>"
  let ?b = "d2\<lparr>donorName := js ''ram'', amount := Some (Finite 300), categoryId := r\<rparr>"
  have trims: "trim (w1 @ js ''Ram'' @ w2) = js ''Ram''" "trim (js ''ram'') = js ''ram''"
    using trim_surrounded [OF assms(2,3), of "js ''Ram''"] js_Ram_ends(1)
      trim_surrounded [of "[]" "[]" "js ''ram''"] js_Ram_ends(2)
    by simp_all
  have keys: "nameKey toLowerCase ?a = toLowerCase (js ''ram'') @ js ''_'' @ category_key r"
             "nameKey toLowerCase ?b = toLowerCase (js ''ram'') @ js ''_'' @ category_key r"
    by (simp_all add: nameKey_def trims assms(5))
  have sum: "fl 500 = Finite 500" "fl 800 = Finite 800"
    using fl_int [of 500] fl_int [of 800] by simp_all
  have "groupDonationsByName toLowerCase [?a, ?b] = [aggregate_of [?a, ?b]]"
    by (simp add: groupDonationsByName_eq keys constituents_def)
  moreover have "g_donorName (aggregate_of [?a, ?b]) = js ''Ram''"
    "g_amount (aggregate_of [?a, ?b]) = Finite 800" "length (g_history (aggregate_of [?a, ?b])) = 2"
    by (simp_all add: aggregate_of_def trims(1) amount_or_0_def falsy_number_def sum)
  ultimately show "\<exists>g. groupDonationsByName toLowerCase [?a, ?b] = [g]
              \<and> g_donorName g = js ''Ram'' \<and> g_amount g = Finite 800
              \<and> length (g_history g) = 2"
    by blast
qed

theorem groups_by_composite_key_witness:
  "wf_donations [ram_500, sita_pledge, ram_spaced, ram_300]
   \<and> list_all isWhiteSpace [0x20, 0x09] \<and> list_all isWhiteSpace [0xA0, 0x0A]
   \<and> (js ''RAM'' = []
        \<or> (\<not> isWhiteSpace (hd (js ''RAM'')) \<and> \<not> isWhiteSpace (last (js ''RAM''))))
   \<and> toLowerCase_latin (js ''Ram'') = toLowerCase_latin (js ''ram'')
   \<and> donorName ram_spaced = [0x20, 0x09] @ js ''RAM'' @ [0xA0, 0x0A]
   \<and> nameKey toLowerCase_latin ram_spaced
       = toLowerCase_latin (js ''RAM'') @ js ''_'' @ category_key (categoryId ram_spaced)
   \<and> map g_donorName (groupDonationsByName toLowerCase_latin
         [ram_500, sita_pledge, ram_spaced, ram_300]) = [js ''Ram'', js ''Sita'']
   \<and> map g_amount (groupDonationsByName toLowerCase_latin
         [ram_500, sita_pledge, ram_spaced, ram_300]) = [Finite 850, Finite 0]
   \<and> map (\<lambda>g. length (g_history g)) (groupDonationsByName toLowerCase_latin
         [ram_500, sita_pledge, ram_spaced, ram_300]) = [3, 1]"
proof -
  note inst = groups_by_composite_key [OF spaced_samples, where d = ram_spaced]
  have eq: "groupDonationsByName toLowerCase_latin [ram_500, sita_pledge, ram_spaced, ram_300]
      = map (\<lambda>k. aggregate_of
                    (constituents toLowerCase_latin [ram_500, sita_pledge, ram_spaced, ram_300] k))
          (first_occurrences
             (map (nameKey toLowerCase_latin) [ram_500, sita_pledge, ram_spaced, ram_300]))"
    using inst by (rule conjunct1)
  have name: "donorName ram_spaced = [0x20, 0x09] @ js ''RAM'' @ [0xA0, 0x0A]"
    by (simp add: ram_spaced_def)
  have same: "ram_spaced\<lparr>donorName := [0x20, 0x09] @ js ''RAM'' @ [0xA0, 0x0A]\<rparr> = ram_spaced"
    by (simp add: ram_spaced_def)
  have key: "nameKey toLowerCase_latin ram_spaced
       = toLowerCase_latin (js ''RAM'') @ js ''_'' @ category_key (categoryId ram_spaced)"
    using inst [THEN conjunct2, THEN conjunct2, THEN conjunct2, THEN conjunct1]
    by (simp only: same)
  have sums: "fl 0 = Finite 0" "fl 500 = Finite 500" "fl 550 = Finite 550" "fl 850 = Finite 850"
    using fl_int [of 0] fl_int [of 500] fl_int [of 550] fl_int [of 850] by simp_all
  have groups: "groupDonationsByName toLowerCase_latin [ram_500, sita_pledge, ram_spaced, ram_300]
      = [aggregate_of [ram_500, ram_spaced, ram_300], aggregate_of [sita_pledge]]"
    unfolding eq by (simp add: name_keys spaced_key constituents_def js_def)
  have "map g_donorName (groupDonationsByName toLowerCase_latin
         [ram_500, sita_pledge, ram_spaced, ram_300]) = [js ''Ram'', js ''Sita'']"
    unfolding groups
    by (simp add: aggregate_of_def ram_500_def sita_pledge_def trim_def js_def isWhiteSpace_def)
  moreover
  have "map g_amount (groupDonationsByName toLowerCase_latin
         [ram_500, sita_pledge, ram_spaced, ram_300]) = [Finite 850, Finite 0]"
    unfolding groups
    by (simp add: aggregate_of_def amount_or_0_def falsy_number_def ram_500_def ram_300_def
        sita_pledge_def ram_spaced_def sums)
  moreover
  have "map (\<lambda>g. length (g_history g)) (groupDonationsByName toLowerCase_latin
         [ram_500, sita_pledge, ram_spaced, ram_300]) = [3, 1]"
    unfolding groups by (simp add: aggregate_of_def)
  ultimately show ?thesis using spaced_samples name key by (simp only: simp_thms)
qed

text \<open>
  C7, as the code has it. For every donor object the aggregator produces from records
  with valid dates, the representative date is the date of a constituent record that is
  strictly later than every constituent before it and at least as late as every
  constituent after it: the maximum date, the first-seen record winning a tie. The
  history lists the constituents in their order, and the representative notes are the
  notes of the first-seen constituent.
\<close>

theorem representative_date_and_notes:
  assumes "wf_donations ds" and "valid_dates ds" and "g \<in> set (groupDonationsByName toLowerCase ds)"
  shows "\<exists>pre d post.
           constituents toLowerCase ds (donor_key toLowerCase g) = pre @ d # post
         \<and> g_history g = map history_of (pre @ d # post)
         \<and> g_date g = date d
         \<and> (\<forall>e\<in>set pre. time_value (date e) < time_value (date d))
         \<and> (\<forall>e\<in>set post. time_value (date e) \<le> time_value (date d))
         \<and> g_notes g = d_notes (hd (pre @ d # post))"
proof -
  let ?cs = "constituents toLowerCase ds (donor_key toLowerCase g)"
  from group_member [OF assms(3)] have ne: "?cs \<noteq> []" and g: "g = aggregate_of ?cs"
    by simp_all
  have "\<forall>d\<in>set ?cs. date_time (date d) \<noteq> None"
    using assms(2) by (simp add: valid_dates_def list_all_iff constituents_def)
  from representative_date [OF ne this] obtain pre d post where
    split: "?cs = pre @ d # post" and latest: "latest_date (date (hd ?cs)) ?cs = date d"
    and before: "\<forall>e\<in>set pre. time_value (date e) < time_value (date d)"
    and after: "\<forall>e\<in>set post. time_value (date e) \<le> time_value (date d)"
    by blast
  have "g_history g = map history_of ?cs" "g_date g = latest_date (date (hd ?cs)) ?cs"
    "g_notes g = d_notes (hd ?cs)"
    by (subst g, simp add: aggregate_of_def)+
  with split latest before after show ?thesis by metis
qed

theorem representative_date_and_notes_witness:
  "wf_donations [ram_500, sita_pledge, ram_300] \<and> valid_dates [ram_500, sita_pledge, ram_300]
   \<and> aggregate_of [ram_500, ram_300] \<in> set (groupDonationsByName toLowerCase_latin [ram_500, sita_pledge, ram_300])
   \<and> g_notes (aggregate_of [ram_500, ram_300]) = js ''hall''
   \<and> g_history (aggregate_of [ram_500, ram_300]) = [history_of ram_500, history_of ram_300]
   \<and> time_value (date ram_300) = time_value (date ram_500)
   \<and> g_date (aggregate_of [ram_500, ram_300]) = date ram_500
   \<and> date ram_300 \<noteq> date ram_500"
proof -
  have tie: "time_value (date ram_300) = time_value (date ram_500)"
    "g_date (aggregate_of [ram_500, ram_300]) = date ram_500" "date ram_300 \<noteq> date ram_500"
    by (simp_all add: aggregate_of_def latest_date_def later_def time_value_def
        ram_500_def ram_300_def js_def)
  have mem: "aggregate_of [ram_500, ram_300]
               \<in> set (groupDonationsByName toLowerCase_latin [ram_500, sita_pledge, ram_300])"
    by (simp add: sample_groups)
  from representative_date_and_notes [OF wf_samples(2) valid_samples mem]
  obtain pre d post where
    split: "constituents toLowerCase_latin [ram_500, sita_pledge, ram_300]
              (donor_key toLowerCase_latin (aggregate_of [ram_500, ram_300])) = pre @ d # post"
    and "g_history (aggregate_of [ram_500, ram_300]) = map history_of (pre @ d # post)"
    and "g_notes (aggregate_of [ram_500, ram_300]) = d_notes (hd (pre @ d # post))"
    by blast
  then have "g_history (aggregate_of [ram_500, ram_300])
      = map history_of (constituents toLowerCase_latin [ram_500, sita_pledge, ram_300]
                          (donor_key toLowerCase_latin (aggregate_of [ram_500, ram_300])))"
    "g_notes (aggregate_of [ram_500, ram_300])
      = d_notes (hd (constituents toLowerCase_latin [ram_500, sita_pledge, ram_300]
                          (donor_key toLowerCase_latin (aggregate_of [ram_500, ram_300]))))"
    by (simp_all only:)
  then have "g_notes (aggregate_of [ram_500, ram_300]) = js ''hall''"
    "g_history (aggregate_of [ram_500, ram_300]) = [history_of ram_500, history_of ram_300]"
    by (simp_all only: sample_constituents, simp_all add: ram_500_def)
  with wf_samples(2) valid_samples mem tie show ?thesis by (simp only: simp_thms)
qed

text \<open>
  The notes of a donor object are not those of its last-seen constituent: the two
  records of Ram form one donor object, whose notes are those of the first record.
\<close>

theorem representative_notes_counterexample:
  "groupDonationsByName toLowerCase_latin [ram_500, sita_pledge, ram_300]
     = [aggregate_of [ram_500, ram_300], aggregate_of [sita_pledge]]
   \<and> constituents toLowerCase_latin [ram_500, sita_pledge, ram_300] (donor_key toLowerCase_latin (aggregate_of [ram_500, ram_300]))
       = [ram_500, ram_300]
   \<and> g_notes (aggregate_of [ram_500, ram_300]) = js ''hall''
   \<and> d_notes (last [ram_500, ram_300]) = js ''roof''
   \<and> g_notes (aggregate_of [ram_500, ram_300]) \<noteq> d_notes (last [ram_500, ram_300])"
  using sample_groups sample_constituents
  by (simp add: aggregate_of_def ram_500_def ram_300_def js_def)




text \<open>
  C5, at the input of the claim. The table is applied in its order, in which the
  single letters and signs come before the words: the letters of the word for shri are
  replaced one by one (sh, nothing for the virama, r, ee) before the entry for the whole
  word is tried, which then finds nothing. The donor name is transliterated to
  shree ram, and the search for shri does not find the donor; the search for shree does.
\<close>

theorem shri_search_misses:
  "([0x0936, 0x094D, 0x0930, 0x0940], js ''shri'') \<in> set translit_map
   \<and> transliterateHindiToEnglish toLowerCase_latin shri_ram = js ''shree ram''
   \<and> \<not> search_match toLowerCase_latin (toLowerCase_latin (js ''shri'')) (aggregate_of [shri_ram_donation])
   \<and> groupedDonors toLowerCase_latin [shri_ram_donation] (js ''shri'') [] [] = []
   \<and> groupedDonors toLowerCase_latin [shri_ram_donation] (js ''shree'') [] [] = [aggregate_of [shri_ram_donation]]"
proof -
  have t: "transliterateHindiToEnglish toLowerCase_latin shri_ram = js ''shree ram''"
    by (simp add: transliterateHindiToEnglish_def translit_map_def shri_ram_def js_def
        toLowerCase_latin_def lowerUnit_def)
  have n: "g_donorName (aggregate_of [shri_ram_donation]) = shri_ram"
    by (simp add: aggregate_of_def shri_ram_donation_def shri_ram_def trim_def isWhiteSpace_def)
  have l: "toLowerCase_latin shri_ram = shri_ram"
    by (simp add: shri_ram_def toLowerCase_latin_def lowerUnit_def)
  have m: "\<not> search_match toLowerCase_latin (toLowerCase_latin (js ''shri'')) (aggregate_of [shri_ram_donation])"
    "search_match toLowerCase_latin (toLowerCase_latin (js ''shree'')) (aggregate_of [shri_ram_donation])"
    by (simp_all add: search_match_def n l t)
       (simp_all add: shri_ram_def js_def toLowerCase_latin_def lowerUnit_def)
  have g: "groupDonationsByName toLowerCase_latin [shri_ram_donation] = [aggregate_of [shri_ram_donation]]"
    by (simp add: groupDonationsByName_eq constituents_def)
  have a: "status shri_ram_donation = Approved" by (simp add: shri_ram_donation_def)
  have j: "js ''shri'' \<noteq> []" "js ''shree'' \<noteq> []" "[] \<noteq> js ''paid''" "[] \<noteq> js ''pledged''"
    by (simp_all add: js_def)
  have e: "([0x0936, 0x094D, 0x0930, 0x0940], js ''shri'') \<in> set translit_map"
    by (simp add: translit_map_def js_def)
  show ?thesis
    using t m e by (simp add: groupedDonors_def a g j)
qed

text \<open>
  C6, at a list of two categories. Moving the second category up asks for the exchange
  of the two order keys, which the batch handler would carry out; but the request is
  answered by the handler for the update of one category, and the order keys stay as
  they were.
\<close>

theorem move_up_is_not_applied:
  "map cat_order (categories temple) = [1, 2]
   \<and> moveCategoryUp_orders (categories temple) ganesh_chowk
       = Some [(ganesh_chowk, 1), (mandir_hall, 2)]
   \<and> map cat_order (categories (snd (reorder_categories
         (apiPut reorder_path (empty_body\<lparr>b_orders := Some [(ganesh_chowk, 1), (mandir_hall, 2)]\<rparr>))
         temple))) = [2, 1]
   \<and> moveCategoryUp today (categories temple) ganesh_chowk temple
       = Some (Failed 400 CastError, temple)"
proof -
  have c: "castObjectId ganesh_chowk = Some ganesh_chowk"
    "castObjectId mandir_hall = Some mandir_hall"
    by (simp_all add: castObjectId_def ganesh_chowk_def mandir_hall_def js_def
        is_hex_digit_def is_hex_def lower_ascii_def)
  have ne: "mandir_hall \<noteq> ganesh_chowk"
    by (simp add: ganesh_chowk_def mandir_hall_def js_def)
  have o: "moveCategoryUp_orders (categories temple) ganesh_chowk
             = Some [(ganesh_chowk, 1), (mandir_hall, 2)]"
    using ne by (simp add: moveCategoryUp_orders_def temple_def Let_def)
  have r: "map cat_order (categories (snd (reorder_categories
         (apiPut reorder_path (empty_body\<lparr>b_orders := Some [(ganesh_chowk, 1), (mandir_hall, 2)]\<rparr>))
         temple))) = [2, 1]"
    using ne by (simp add: reorder_categories_def apiPut_def c temple_def)
  have m: "moveCategoryUp today (categories temple) ganesh_chowk temple
             = Some (Failed 400 CastError, temple)"
    by (simp add: moveCategoryUp_def o dispatch_reorder apiPut_def)
  show ?thesis using o r m by (simp add: temple_def)
qed

text \<open>
  C8. The donation a sub-admin submits is stored with status approved, and is not
  rejected when its date is missing. The sub-admin \<open>ravi\<close>, who may add donations, fills
  in the form for Sita with 100 rupees and submits it: \<open>handleDonationSubmit\<close> sends the
  request without the headers that name the user, so the server takes it for an
  admin's, stores the record with status approved and logs it as an admin's, both with
  the date left empty and with a date. Had the request carried the headers of \<open>ravi\<close>,
  the server would have rejected the form without a date with its message, and stored
  the dated one with status pending.
\<close>

theorem subadmin_form_is_stored_approved:
  "user_type ravi = js ''subadmin'' \<and> canUserAdd (Some ravi)
   \<and> form_donationDate sita_form = JsDate [] None
   \<and> (\<exists>s'. handleDonationSubmit today sita_form temple = Some (Success 201, s')
          \<and> map doc_donorName (donations s') = [js ''Ram'', js ''Sita'']
          \<and> map doc_status (donations s') = [Approved, Approved]
          \<and> map log_userType (logs s') = [js ''admin''])
   \<and> (\<exists>s'. handleDonationSubmit today sita_form_dated temple = Some (Success 201, s')
          \<and> map doc_donorName (donations s') = [js ''Ram'', js ''Sita'']
          \<and> map doc_status (donations s') = [Approved, Approved]
          \<and> map log_userType (logs s') = [js ''admin''])
   \<and> dispatch today
        (acting_as ravi (apiPost [js ''api'', js ''donations''] (donationData_of_form sita_form)))
        temple
      = Some (Rejected 400 (js ''Amount and Date are required for Sub-admins''), temple)
   \<and> (\<exists>s'. dispatch today
          (acting_as ravi
             (apiPost [js ''api'', js ''donations''] (donationData_of_form sita_form_dated)))
          temple = Some (Success 201, s')
          \<and> map doc_status (donations s') = [Approved, Pending])"
proof -
  have ravi: "user_type ravi = js ''subadmin''" "canUserAdd (Some ravi)"
    by (simp_all add: ravi_def subadmin_user_def canUserAdd_def js_def)
  have form: "form_donationDate sita_form = JsDate [] None"
    "form_donationId sita_form = []" "form_donationId sita_form_dated = []"
    by (simp_all add: sita_form_def sita_form_dated_def)
  have hdr: "header_or None (js ''admin'') = js ''admin''"
    "header_or (Some (js ''subadmin'')) (js ''admin'') = js ''subadmin''"
    "js ''admin'' \<noteq> js ''subadmin''" "js ''subadmin'' \<noteq> js ''admin''"
    "js ''Sita'' \<noteq> []"
    by (simp_all add: header_or_def js_def)
  have submit: "handleDonationSubmit today f temple
      = Some (post_donation today
                (apiPost [js ''api'', js ''donations''] (donationData_of_form f)) temple)"
    if "form_donationId f = []" for f
    using that by (simp only: handleDonationSubmit_def dispatch_post simp_thms if_False)
  have p1: "\<exists>s'. post_donation today
              (apiPost [js ''api'', js ''donations''] (donationData_of_form sita_form)) temple
            = (Success 201, s')
          \<and> map doc_donorName (donations s') = [js ''Ram'', js ''Sita'']
          \<and> map doc_status (donations s') = [Approved, Approved]
          \<and> map log_userType (logs s') = [js ''admin'']"
    by (simp add: sita_data post_donation_def apiPost_def hdr Let_def new_donation_def
        empty_body_def cast_chowk set_amount_def set_date_def createLog_def temple_def
        stored_ram_def)
  have p2: "\<exists>s'. post_donation today
              (apiPost [js ''api'', js ''donations''] (donationData_of_form sita_form_dated))
              temple
            = (Success 201, s')
          \<and> map doc_donorName (donations s') = [js ''Ram'', js ''Sita'']
          \<and> map doc_status (donations s') = [Approved, Approved]
          \<and> map log_userType (logs s') = [js ''admin'']"
    by (simp add: sita_data post_donation_def apiPost_def hdr Let_def new_donation_def
        empty_body_def cast_chowk set_amount_def set_date_def createLog_def temple_def
        stored_ram_def)
  have 1: "\<exists>s'. handleDonationSubmit today sita_form temple = Some (Success 201, s')
          \<and> map doc_donorName (donations s') = [js ''Ram'', js ''Sita'']
          \<and> map doc_status (donations s') = [Approved, Approved]
          \<and> map log_userType (logs s') = [js ''admin'']"
    using p1 by (simp only: submit [OF form(2)] option.inject)
  have 2: "\<exists>s'. handleDonationSubmit today sita_form_dated temple = Some (Success 201, s')
          \<and> map doc_donorName (donations s') = [js ''Ram'', js ''Sita'']
          \<and> map doc_status (donations s') = [Approved, Approved]
          \<and> map log_userType (logs s') = [js ''admin'']"
    using p2 by (simp only: submit [OF form(3)] option.inject)
  have p3: "post_donation today
        (acting_as ravi (apiPost [js ''api'', js ''donations''] (donationData_of_form sita_form)))
        temple
      = (Rejected 400 (js ''Amount and Date are required for Sub-admins''), temple)"
    by (simp add: sita_data post_donation_def apiPost_def
        acting_as_def ravi hdr Let_def empty_body_def falsy_amount_def falsy_date_def)
  have 3: "dispatch today
        (acting_as ravi (apiPost [js ''api'', js ''donations''] (donationData_of_form sita_form)))
        temple
      = Some (Rejected 400 (js ''Amount and Date are required for Sub-admins''), temple)"
    by (simp only: dispatch_post p3)
  have p4: "\<exists>s'. post_donation today
          (acting_as ravi
             (apiPost [js ''api'', js ''donations''] (donationData_of_form sita_form_dated)))
          temple = (Success 201, s')
          \<and> map doc_status (donations s') = [Approved, Pending]"
    by (simp add: sita_data post_donation_def apiPost_def
        acting_as_def ravi hdr Let_def new_donation_def empty_body_def cast_chowk
        falsy_amount_def falsy_date_def falsy_number_def
        set_amount_def set_date_def createLog_def temple_def stored_ram_def)
       (simp add: js_def)
  have 4: "\<exists>s'. dispatch today
          (acting_as ravi
             (apiPost [js ''api'', js ''donations''] (donationData_of_form sita_form_dated)))
          temple = Some (Success 201, s')
          \<and> map doc_status (donations s') = [Approved, Pending]"
    using p4 by (simp only: dispatch_post option.inject)
  from ravi form(1) 1 2 3 4 show ?thesis by (simp only: simp_thms)
qed




text \<open>
  C10. The route for the update of one category is registered before the route for
  the batch reorder, and its pattern matches the path of the reorder request. Every
  PUT request to that path is answered by the update handler with the identity
  \<open>reorder\<close>, which finds no category (the text is no ObjectId) and changes nothing.
  No request at all reaches the batch handler, and a move up or down of the client
  never changes the server.
\<close>

theorem reorder_requests_reach_update_handler:
  assumes "req_method req = PUT" and "req_path req = reorder_path"
  shows "route_of routes req = Some (PutCategory, [js ''reorder''])
       \<and> dispatch e req s = Some (put_category (js ''reorder'') req s)
       \<and> put_category (js ''reorder'') req s = (Failed 400 CastError, s)
       \<and> route_of routes any_request \<noteq> Some (ReorderCategories, params)
       \<and> (moveCategoryUp e cache ident s = None
            \<or> moveCategoryUp e cache ident s = Some (Failed 400 CastError, s))
       \<and> (moveCategoryDown e cache ident s = Inl TypeError
            \<or> moveCategoryDown e cache ident s = Inr None
            \<or> moveCategoryDown e cache ident s = Inr (Some (Failed 400 CastError, s)))"
  using route_of_reorder [OF assms] dispatch_reorder [OF assms] put_category_reorder
    reorder_unreachable moveCategoryUp_never_applied moveCategoryDown_never_applied
  by simp

theorem reorder_requests_reach_update_handler_witness:
  "req_method (apiPut reorder_path (empty_body\<lparr>b_orders := Some [(ganesh_chowk, 1)]\<rparr>)) = PUT
   \<and> req_path (apiPut reorder_path (empty_body\<lparr>b_orders := Some [(ganesh_chowk, 1)]\<rparr>))
       = reorder_path
   \<and> dispatch today (apiPut reorder_path (empty_body\<lparr>b_orders := Some [(ganesh_chowk, 1)]\<rparr>))
         temple
       = Some (Failed 400 CastError, temple)"
proof -
  have m: "req_method (apiPut reorder_path (empty_body\<lparr>b_orders := Some [(ganesh_chowk, 1)]\<rparr>))
             = PUT"
    and p: "req_path (apiPut reorder_path (empty_body\<lparr>b_orders := Some [(ganesh_chowk, 1)]\<rparr>))
             = reorder_path"
    by (simp_all add: apiPut_def)
  from reorder_requests_reach_update_handler [OF m p, of today temple]
  have "dispatch today (apiPut reorder_path (empty_body\<lparr>b_orders := Some [(ganesh_chowk, 1)]\<rparr>))
          temple = Some (Failed 400 CastError, temple)"
    by simp
  with m p show ?thesis by (simp only: simp_thms)
qed

lemma js_subadmin_neq_admin: "js ''subadmin'' \<noteq> js ''admin''"
  by (simp add: js_def)

text \<open>
  C3. The permission evaluator is a function of the actor and the action alone.
  Without an actor every action is denied; an admin is allowed every action; a
  sub-admin is allowed add, edit, delete and manage-category exactly when the
  corresponding flag is set, and access to a category exactly when its list of
  assigned categories is absent or empty or contains the category.
\<close>

theorem permission_evaluator_rules:
  "canUserAdd None = False \<and> canUserEdit None = False \<and> canUserDelete None = False
   \<and> canUserManageCategory None = False \<and> canUserAccessCategory None c = Inr False
   \<and> canUserAdd (Some (admin_user n)) = True \<and> canUserEdit (Some (admin_user n)) = True
   \<and> canUserDelete (Some (admin_user n)) = True
   \<and> canUserManageCategory (Some (admin_user n)) = True
   \<and> canUserAccessCategory (Some (admin_user n)) c = Inr True
   \<and> canUserAdd (Some (subadmin_user n p)) = canAddDonation p
   \<and> canUserEdit (Some (subadmin_user n p)) = canEditDonation p
   \<and> canUserDelete (Some (subadmin_user n p)) = canDeleteDonation p
   \<and> canUserManageCategory (Some (subadmin_user n p)) = canManageCategory p
   \<and> canUserAccessCategory (Some (subadmin_user n p)) c =
       Inr (set (case assignedCategories p of None \<Rightarrow> [] | Some cs \<Rightarrow> cs) = {}
            \<or> c \<in> set (case assignedCategories p of None \<Rightarrow> [] | Some cs \<Rightarrow> cs))"
  using js_subadmin_neq_admin
  by (simp add: canUserAdd_def canUserEdit_def canUserDelete_def canUserManageCategory_def
      canUserAccessCategory_def admin_user_def subadmin_user_def
      split: option.splits)



end
